theory Spec2Isabelle
  imports Complex_Main "HOL-Library.Stream" "HOL-Library.Multiset" "HOL-Library.AList"
begin

section \<open>Numbers\<close>

text \<open>
  The program computes with JavaScript numbers. Every quantity it handles apart from
  the draws of the generator is an integer, modelled as \<open>int\<close> (or \<open>nat\<close> for an array
  index or a loop counter that starts at 0); JavaScript computes the same integers as
  long as they stay below \<open>2^53\<close>, which the generator's own states always do
  (a state is below \<open>2^31\<close>, its product with 16807 below \<open>2^46\<close>). A draw
  \<open>(state - 1) / 2147483646\<close> and its product \<open>rand() * (i + 1)\<close> are modelled as exact
  rationals. The floating-point product can fall just below an integer that the exact
  product reaches, and its floor is then one less; it is an index between 0 and \<open>i\<close>
  either way, which is all the statements below use of it.

  The operator \<open>%\<close> is the remainder of the truncated division: its result has the
  sign of the dividend.
\<close>

definition js_rem :: "int \<Rightarrow> int \<Rightarrow> int" where
  "js_rem a b = sgn a * (\<bar>a\<bar> mod \<bar>b\<bar>)"

text \<open>
  The outcomes that end a run without a result: the three \<open>throw new Error(...)\<close> of
  \<open>findItemForTarget\<close>; the \<open>TypeError\<close> JavaScript raises when a property is read
  from \<open>undefined\<close>; and \<open>UndefinedElement\<close> for a swap of \<open>shuffle\<close> whose index \<open>j\<close> is
  not an index of the array. JavaScript does not raise there: at the first such swap it
  stores \<open>undefined\<close> at \<open>next[i]\<close> and keeps the old element under the key \<open>j\<close>,
  so from then on the array is no sequence of elements any more. The model stops such a
  run with \<open>UndefinedElement\<close>; what the statements below say of a result, they say of
  the runs that do not get there. No draw in [0, 1) leads there, and no seed that is
  not negative gives a draw outside [0, 1).
\<close>

datatype error =
    NoMatchingColor
  | NoMatchingShape
  | NoMatchingCombined
  | TypeError
  | UndefinedElement

section \<open>The deterministic generator\<close>

text \<open>
  \<^verbatim>\<open>
  export function seededRandom(seed: number): () => number {
    let state = seed % 2147483647
    if (state <= 0) state += 2147483646
    return () => {
      state = (state * 16807) % 2147483647
      return (state - 1) / 2147483646
    }
  }
  \<close>
  The closure owns its state cell and nothing else reads or writes it, so what a caller
  can observe of it is the sequence of the values it returns: a stream. The state
  before the first draw is \<open>seededRandom_state\<close>, one call steps it with
  \<open>seededRandom_step\<close> and returns \<open>seededRandom_value\<close> of the new state;
  \<open>seededRandom_closure state\<close> is the closure whose cell holds \<open>state\<close>.
\<close>

definition seededRandom_state :: "int \<Rightarrow> int" where
  "seededRandom_state seed =
     (let state = js_rem seed 2147483647
      in if state \<le> 0 then state + 2147483646 else state)"

definition seededRandom_step :: "int \<Rightarrow> int" where
  "seededRandom_step state = js_rem (state * 16807) 2147483647"

definition seededRandom_value :: "int \<Rightarrow> rat" where
  "seededRandom_value state = of_int (state - 1) / 2147483646"

definition seededRandom_closure :: "int \<Rightarrow> rat stream" where
  "seededRandom_closure state =
     smap seededRandom_value (siterate seededRandom_step (seededRandom_step state))"

definition seededRandom :: "int \<Rightarrow> rat stream" where
  "seededRandom seed = seededRandom_closure (seededRandom_state seed)"

section \<open>Shuffle\<close>

text \<open>
  \<^verbatim>\<open>
  export function shuffle<T>(array: T[], rand: () => number): T[] {
    const next = [...array]
    for (let i = next.length - 1; i > 0; i -= 1) {
      const j = Math.floor(rand() * (i + 1))
      ;[next[i], next[j]] = [next[j], next[i]]
    }
    return next
  }
  \<close>
  \<open>shuffle_loop i next rand\<close> is the loop from the counter \<open>i\<close> on; it returns the array
  and the rest of the stream. For the empty array the counter starts at \<open>-1\<close> and the
  loop body never runs, as for the counter 0.
\<close>

definition draw_index :: "rat \<Rightarrow> nat \<Rightarrow> int" where
  "draw_index r i = \<lfloor>r * of_nat (i + 1)\<rfloor>"

definition swap :: "nat \<Rightarrow> nat \<Rightarrow> 'a list \<Rightarrow> 'a list" where
  "swap i j xs = xs[i := xs ! j, j := xs ! i]"

fun shuffle_loop :: "nat \<Rightarrow> 'a list \<Rightarrow> rat stream \<Rightarrow> error + ('a list \<times> rat stream)" where
  "shuffle_loop 0 nxt rand = Inr (nxt, rand)"
| "shuffle_loop (Suc k) nxt rand =
     (let j = draw_index (shd rand) (Suc k)
      in if 0 \<le> j \<and> j < int (length nxt)
         then shuffle_loop k (swap (Suc k) (nat j) nxt) (stl rand)
         else Inl UndefinedElement)"

definition shuffle :: "'a list \<Rightarrow> rat stream \<Rightarrow> error + ('a list \<times> rat stream)" where
  "shuffle array rand = shuffle_loop (length array - 1) array rand"

text \<open>
  The same function on a store of arrays, to say what it does to the array it is
  given. A store is the list of the arrays allocated so far and an address is a
  position in it; \<open>[...array]\<close> allocates a new array, and each swap writes to the
  store at that address only.
\<close>

type_synonym addr = nat
type_synonym 'a store = "'a list list"

definition alloc :: "'a list \<Rightarrow> 'a store \<Rightarrow> addr \<times> 'a store" where
  "alloc xs st = (length st, st @ [xs])"

fun shuffle_loop_store ::
  "nat \<Rightarrow> addr \<Rightarrow> rat stream \<Rightarrow> 'a store \<Rightarrow> error + ('a store \<times> rat stream)" where
  "shuffle_loop_store 0 nxt rand st = Inr (st, rand)"
| "shuffle_loop_store (Suc k) nxt rand st =
     (let j = draw_index (shd rand) (Suc k)
      in if 0 \<le> j \<and> j < int (length (st ! nxt))
         then shuffle_loop_store k nxt (stl rand) (st[nxt := swap (Suc k) (nat j) (st ! nxt)])
         else Inl UndefinedElement)"

definition shuffle_store ::
  "addr \<Rightarrow> rat stream \<Rightarrow> 'a store \<Rightarrow> error + (addr \<times> 'a store \<times> rat stream)" where
  "shuffle_store array rand st =
     (let (nxt, st1) = alloc (st ! array) st
      in case shuffle_loop_store (length (st1 ! nxt) - 1) nxt rand st1 of
           Inl e \<Rightarrow> Inl e
         | Inr (st2, rand') \<Rightarrow> Inr (nxt, st2, rand'))"

section \<open>Balanced indices\<close>

text \<open>
  \<^verbatim>\<open>
  function buildBalancedIndices(length: number, count: number, rand: () => number): number[] {
    if (count <= 0 || length <= 0) return []
    const baseRepeats = Math.floor(count / length)
    const remainder = count % length
    const indices: number[] = []
    for (let i = 0; i < length; i += 1) {
      for (let j = 0; j < baseRepeats; j += 1) {
        indices.push(i)
      }
    }
    if (remainder > 0) {
      const extraIndices = shuffle(Array.from({ length }, (_, i) => i), rand).slice(0, remainder)
      indices.push(...extraIndices)
    }
    return shuffle(indices, rand)
  }
  \<close>
  The source's parameters \<open>length\<close> and \<open>count\<close> are \<open>len\<close> and \<open>cnt\<close> here, and
  \<open>baseIndices len baseRepeats\<close> is the array \<open>indices\<close> after the two nested loops.
\<close>

definition baseIndices :: "nat \<Rightarrow> nat \<Rightarrow> nat list" where
  "baseIndices len baseRepeats = concat (map (\<lambda>i. replicate baseRepeats i) [0..<len])"

definition buildBalancedIndices ::
  "int \<Rightarrow> int \<Rightarrow> rat stream \<Rightarrow> error + (nat list \<times> rat stream)" where
  "buildBalancedIndices len cnt rand =
     (if cnt \<le> 0 \<or> len \<le> 0 then Inr ([], rand)
      else
        let baseRepeats = cnt div len;
            remainder = js_rem cnt len;
            indices = baseIndices (nat len) (nat baseRepeats)
        in if remainder > 0
           then (case shuffle [0..<nat len] rand of
                   Inl e \<Rightarrow> Inl e
                 | Inr (shuffled, rand1) \<Rightarrow>
                     shuffle (indices @ take (nat remainder) shuffled) rand1)
           else shuffle indices rand)"

section \<open>Tables and records\<close>

datatype Condition = Color | Shape | Combined

text \<open>
  The fields of a record carry the record's name where the source uses the same
  name again for a parameter or a local constant (\<open>trial.targetColor\<close> is
  \<open>trial_targetColor trial\<close>, \<open>args.condition\<close> is \<open>arg_condition args\<close>, \<open>item.id\<close> is
  \<open>item_id item\<close>).
\<close>

definition LATIN_SQUARE_3 :: "Condition list list" where
  "LATIN_SQUARE_3 =
     [[Color, Shape, Combined],
      [Shape, Combined, Color],
      [Combined, Color, Shape]]"

text \<open>
  An entry of \<open>COLORS\<close> is the pair of its \<open>name\<close> and its \<open>hex\<close>, an entry of \<open>SHAPES\<close>
  the pair of its \<open>name\<close> and its \<open>symbol\<close>. The symbols are characters outside ASCII
  and stand here by their code points.
\<close>

definition COLORS :: "(string \<times> string) list" where
  "COLORS =
     [(''red'', ''#d62828''),
      (''blue'', ''#1d4ed8''),
      (''green'', ''#2f9e44''),
      (''orange'', ''#f97316''),
      (''purple'', ''#7c3aed''),
      (''yellow'', ''#eab308''),
      (''cyan'', ''#0891b2''),
      (''magenta'', ''#db2777'')]"

definition SHAPES :: "(string \<times> string) list" where
  "SHAPES =
     [(''circle'', ''U+25CF''),
      (''triangle'', ''U+25B2''),
      (''square'', ''U+25A0''),
      (''diamond'', ''U+25C6''),
      (''star'', ''U+2605''),
      (''pentagon'', ''U+2B1F''),
      (''hexagon'', ''U+2B22''),
      (''cross'', ''U+271A'')]"

definition DEFAULT_PRACTICE_TRIALS :: int where
  "DEFAULT_PRACTICE_TRIALS = 3"

definition DEFAULT_MEASURED_TRIALS :: int where
  "DEFAULT_MEASURED_TRIALS = 10"

record StimulusItem =
  item_id :: string
  colorName :: string
  colorHex :: string
  shapeName :: string
  shapeSymbol :: string

record TrialPlan =
  trial_id :: string
  trial_blockIndex :: int
  trial_blockOrder :: int
  trial_condition :: Condition
  trialIndexInBlock :: int
  isPractice :: bool
  targetType :: Condition
  trial_targetColor :: string
  trial_targetShape :: string
  promptText :: string
  correctItemId :: string
  trial_items :: "StimulusItem list"

record BlockPlan =
  plan_blockIndex :: int
  plan_blockOrder :: int
  plan_condition :: Condition
  plan_practiceTrials :: nat
  plan_measuredTrials :: nat
  plan_trials :: "TrialPlan list"

text \<open>The argument object of \<open>generateBlockPlan\<close>; its last two fields are optional.\<close>

record Args =
  arg_participantNumber :: int
  arg_blockIndex :: int
  arg_blockOrder :: int
  arg_condition :: Condition
  arg_practiceTrials :: "int option"
  arg_measuredTrials :: "int option"

section \<open>Helpers of the embedding\<close>

text \<open>
  Running one fallible step after another: the first error ends the run, as a thrown
  exception does. \<open>traverse f xs\<close> is \<open>xs.map(f)\<close> (or a loop over \<open>xs\<close> that pushes
  \<open>f x\<close>) for an \<open>f\<close> that may throw.
\<close>

definition and_then :: "error + 'a \<Rightarrow> ('a \<Rightarrow> error + 'b) \<Rightarrow> error + 'b" where
  "and_then m f = (case m of Inl e \<Rightarrow> Inl e | Inr x \<Rightarrow> f x)"

fun traverse :: "('a \<Rightarrow> error + 'b) \<Rightarrow> 'a list \<Rightarrow> error + 'b list" where
  "traverse f [] = Inr []"
| "traverse f (x # xs) =
     and_then (f x) (\<lambda>y. and_then (traverse f xs) (\<lambda>ys. Inr (y # ys)))"

text \<open>
  \<open>xs[i]\<close> is \<open>undefined\<close> (\<open>None\<close>) when \<open>i\<close> is not an index of \<open>xs\<close>, and reading a
  property of \<open>undefined\<close> raises a \<open>TypeError\<close>. \<open>entry_at table xs t\<close> is the
  object \<open>table[xs[t]]\<close> at the moment one of its properties is read.
\<close>

definition js_index :: "'a list \<Rightarrow> nat \<Rightarrow> 'a option" where
  "js_index xs i = (if i < length xs then Some (xs ! i) else None)"

definition defined :: "'a option \<Rightarrow> error + 'a" where
  "defined v = (case v of None \<Rightarrow> Inl TypeError | Some x \<Rightarrow> Inr x)"

definition entry_at :: "'a list \<Rightarrow> nat list \<Rightarrow> nat \<Rightarrow> error + 'a" where
  "entry_at table xs t =
     (case js_index xs t of
        None \<Rightarrow> Inl TypeError
      | Some i \<Rightarrow> defined (js_index table i))"

text \<open>
  What a template string writes for a number: \<open>decimal\<close> for one that is not
  negative, with a minus sign before the digits otherwise.
\<close>

definition digit :: "nat \<Rightarrow> char" where
  "digit d = ''0123456789'' ! d"

fun decimal :: "nat \<Rightarrow> string" where
  "decimal n = (if n < 10 then [digit n] else decimal (n div 10) @ [digit (n mod 10)])"

declare decimal.simps [simp del]

definition numberToString :: "int \<Rightarrow> string" where
  "numberToString k = (if 0 \<le> k then decimal (nat k) else CHR ''-'' # decimal (nat (- k)))"

section \<open>Counterbalancing\<close>

text \<open>
  \<^verbatim>\<open>
  export function getLatinSquareOrder(participantNumber: number): Condition[] {
    return LATIN_SQUARE_3[participantNumber % 3]
  }
  \<close>
  A negative remainder is no index of the table: the result is \<open>undefined\<close>.
\<close>

definition getLatinSquareOrder :: "int \<Rightarrow> Condition list option" where
  "getLatinSquareOrder participantNumber =
     (let k = js_rem participantNumber 3
      in if 0 \<le> k then js_index LATIN_SQUARE_3 (nat k) else None)"

text \<open>
  \<^verbatim>\<open>
  export function orderToLabel(order: Condition[]): string {
    return order
      .map((condition) => {
        if (condition === 'color') return 'A'
        if (condition === 'shape') return 'B'
        return 'C'
      })
      .join('')
  }
  \<close>
\<close>

definition orderToLabel :: "Condition list \<Rightarrow> string" where
  "orderToLabel order =
     concat (map (\<lambda>condition.
        if condition = Color then ''A''
        else if condition = Shape then ''B''
        else ''C'') order)"

section \<open>The items of a trial\<close>

text \<open>
  \<^verbatim>\<open>
  function buildItemsForColorOnlyTrial(trialSeed: number): StimulusItem[] {
    const rand = seededRandom(trialSeed)
    const order = shuffle(Array.from({ length: COLORS.length }, (_, i) => i), rand)
    return order.map((colorIndex, index) => ({
      id: `item_${index + 1}`,
      colorName: COLORS[colorIndex].name,
      colorHex: COLORS[colorIndex].hex,
      shapeName: 'circle',
      shapeSymbol: <U+25CF>,
    }))
  }
  \<close>
  \<open>buildItemsForShapeOnlyTrial\<close> is the same over \<open>SHAPES\<close>, with the colour \<open>black\<close>,
  \<open>#111111\<close>.
\<close>

definition buildItemsForColorOnlyTrial :: "int \<Rightarrow> error + StimulusItem list" where
  "buildItemsForColorOnlyTrial trialSeed =
     (let rand = seededRandom trialSeed
      in and_then (shuffle [0..<length COLORS] rand) (\<lambda>(order, rand1).
         traverse (\<lambda>(index, colorIndex).
             and_then (defined (js_index COLORS colorIndex)) (\<lambda>color.
             Inr \<lparr>item_id = ''item_'' @ decimal (index + 1),
                  colorName = fst color,
                  colorHex = snd color,
                  shapeName = ''circle'',
                  shapeSymbol = ''U+25CF''\<rparr>))
           (enumerate 0 order)))"

definition buildItemsForShapeOnlyTrial :: "int \<Rightarrow> error + StimulusItem list" where
  "buildItemsForShapeOnlyTrial trialSeed =
     (let rand = seededRandom trialSeed
      in and_then (shuffle [0..<length SHAPES] rand) (\<lambda>(order, rand1).
         traverse (\<lambda>(index, shapeIndex).
             and_then (defined (js_index SHAPES shapeIndex)) (\<lambda>shape.
             Inr \<lparr>item_id = ''item_'' @ decimal (index + 1),
                  colorName = ''black'',
                  colorHex = ''#111111'',
                  shapeName = fst shape,
                  shapeSymbol = snd shape\<rparr>))
           (enumerate 0 order)))"

text \<open>
  \<^verbatim>\<open>
  function buildCombinedItemsForTarget(trialSeed: number, targetColor: string,
                                       targetShape: string): StimulusItem[] {
    const rand = seededRandom(trialSeed)
    const remainingColors = shuffle(COLORS.filter((color) => color.name !== targetColor), rand)
    const remainingShapes = shuffle(SHAPES.filter((shape) => shape.name !== targetShape), rand)
    const pairs = [
      {
        colorName: targetColor,
        colorHex: COLORS.find((color) => color.name === targetColor)?.hex ?? '#000000',
        shapeName: targetShape,
        shapeSymbol: SHAPES.find((shape) => shape.name === targetShape)?.symbol ?? <U+25A0>,
      },
    ]
    for (let i = 0; i < 7; i += 1) {
      pairs.push({
        colorName: remainingColors[i].name,
        colorHex: remainingColors[i].hex,
        shapeName: remainingShapes[i].name,
        shapeSymbol: remainingShapes[i].symbol,
      })
    }
    const orderedPairs = shuffle(pairs, rand)
    return orderedPairs.map((pair, index) => ({
      id: `item_${index + 1}`,
      colorName: pair.colorName,
      colorHex: pair.colorHex,
      shapeName: pair.shapeName,
      shapeSymbol: pair.shapeSymbol,
    }))
  }
  \<close>
  A pair is the pair of its colour entry and its shape entry.
\<close>

definition buildCombinedItemsForTarget ::
  "int \<Rightarrow> string \<Rightarrow> string \<Rightarrow> error + StimulusItem list" where
  "buildCombinedItemsForTarget trialSeed targetColor targetShape =
     (let rand = seededRandom trialSeed
      in and_then (shuffle (filter (\<lambda>color. fst color \<noteq> targetColor) COLORS) rand)
           (\<lambda>(remainingColors, rand1).
         and_then (shuffle (filter (\<lambda>shape. fst shape \<noteq> targetShape) SHAPES) rand1)
           (\<lambda>(remainingShapes, rand2).
         let target =
               ((targetColor,
                 case find (\<lambda>color. fst color = targetColor) COLORS of
                   Some color \<Rightarrow> snd color | None \<Rightarrow> ''#000000''),
                (targetShape,
                 case find (\<lambda>shape. fst shape = targetShape) SHAPES of
                   Some shape \<Rightarrow> snd shape | None \<Rightarrow> ''U+25A0''))
         in and_then
              (traverse (\<lambda>i.
                  and_then (defined (js_index remainingColors i)) (\<lambda>color.
                  and_then (defined (js_index remainingShapes i)) (\<lambda>shape.
                  Inr (color, shape))))
                [0..<7])
              (\<lambda>rest.
            and_then (shuffle (target # rest) rand2) (\<lambda>(orderedPairs, rand3).
            Inr (map (\<lambda>(index, pair).
                   \<lparr>item_id = ''item_'' @ decimal (index + 1),
                    colorName = fst (fst pair),
                    colorHex = snd (fst pair),
                    shapeName = fst (snd pair),
                    shapeSymbol = snd (snd pair)\<rparr>)
                 (enumerate 0 orderedPairs)))))))"

text \<open>
  \<^verbatim>\<open>
  function findItemForTarget(items: StimulusItem[], targetColor: string, targetShape: string,
                             condition: Condition): StimulusItem {
    if (condition === 'color') {
      const byColor = items.find((item) => item.colorName === targetColor)
      if (!byColor) throw new Error('No matching color target found')
      return byColor
    }
    if (condition === 'shape') {
      const byShape = items.find((item) => item.shapeName === targetShape)
      if (!byShape) throw new Error('No matching shape target found')
      return byShape
    }
    const byBoth = items.find((item) => item.colorName === targetColor
                                        && item.shapeName === targetShape)
    if (!byBoth) throw new Error('No matching combined target found')
    return byBoth
  }
  \<close>
  \<open>matchesTarget\<close> is the predicate each branch hands to \<open>find\<close>.
\<close>

definition matchesTarget :: "Condition \<Rightarrow> string \<Rightarrow> string \<Rightarrow> StimulusItem \<Rightarrow> bool" where
  "matchesTarget condition targetColor targetShape item =
     (if condition = Color then colorName item = targetColor
      else if condition = Shape then shapeName item = targetShape
      else colorName item = targetColor \<and> shapeName item = targetShape)"

definition findItemForTarget ::
  "StimulusItem list \<Rightarrow> string \<Rightarrow> string \<Rightarrow> Condition \<Rightarrow> error + StimulusItem" where
  "findItemForTarget items targetColor targetShape condition =
     (if condition = Color then
        (case find (\<lambda>item. colorName item = targetColor) items of
           None \<Rightarrow> Inl NoMatchingColor
         | Some byColor \<Rightarrow> Inr byColor)
      else if condition = Shape then
        (case find (\<lambda>item. shapeName item = targetShape) items of
           None \<Rightarrow> Inl NoMatchingShape
         | Some byShape \<Rightarrow> Inr byShape)
      else
        (case find (\<lambda>item. colorName item = targetColor \<and> shapeName item = targetShape) items of
           None \<Rightarrow> Inl NoMatchingCombined
         | Some byBoth \<Rightarrow> Inr byBoth))"

section \<open>The block planner\<close>

text \<open>
  \<^verbatim>\<open>
  export function generateBlockPlan(args: {...}): BlockPlan {
    const practiceTrials = args.practiceTrials ?? DEFAULT_PRACTICE_TRIALS
    const measuredTrials = args.measuredTrials ?? DEFAULT_MEASURED_TRIALS
    const totalTrials = practiceTrials + measuredTrials
    const rand = seededRandom(args.participantNumber * 1000 + args.blockIndex * 77
                              + args.blockOrder * 19)
    const practiceColorIndices = buildBalancedIndices(COLORS.length, practiceTrials, rand)
    const practiceShapeIndices = buildBalancedIndices(SHAPES.length, practiceTrials, rand)
    const measuredColorIndices = buildBalancedIndices(COLORS.length, measuredTrials, rand)
    const measuredShapeIndices = buildBalancedIndices(SHAPES.length, measuredTrials, rand)
    const balancedColorIndices = [...practiceColorIndices, ...measuredColorIndices]
    const balancedShapeIndices = [...practiceShapeIndices, ...measuredShapeIndices]
    const trials: TrialPlan[] = []
    for (let t = 0; t < totalTrials; t += 1) {
      const trialSeed = args.participantNumber * 100000 + args.blockIndex * 1000 + t + 1
      const targetColor =
        args.condition === 'shape' ? 'black' : COLORS[balancedColorIndices[t]].name
      const targetShape =
        args.condition === 'color' ? 'circle' : SHAPES[balancedShapeIndices[t]].name
      const items =
        args.condition === 'color'
          ? buildItemsForColorOnlyTrial(trialSeed)
          : args.condition === 'shape'
            ? buildItemsForShapeOnlyTrial(trialSeed)
            : buildCombinedItemsForTarget(trialSeed, targetColor, targetShape)
      const correctItem = findItemForTarget(items, targetColor, targetShape, args.condition)
      const promptText =
        args.condition === 'color'
          ? `Select the ${targetColor} circle`
          : args.condition === 'shape'
            ? `Select the ${targetShape}`
            : `Select the ${targetColor} ${targetShape}`
      trials.push({
        id: `b${args.blockIndex}_t${t + 1}`,
        blockIndex: args.blockIndex,
        blockOrder: args.blockOrder,
        condition: args.condition,
        trialIndexInBlock: t + 1,
        isPractice: t < practiceTrials,
        targetType: args.condition,
        targetColor,
        targetShape,
        promptText,
        correctItemId: correctItem.id,
        items,
      })
    }
    const practice = trials.filter((trial) => trial.isPractice)
    const measured = trials.filter((trial) => !trial.isPractice)
    return {
      blockIndex: args.blockIndex,
      blockOrder: args.blockOrder,
      condition: args.condition,
      practiceTrials: practice.length,
      measuredTrials: measured.length,
      trials,
    }
  }
  \<close>
  \<open>practiceTrialsOf\<close> and \<open>measuredTrialsOf\<close> are the constants \<open>practiceTrials\<close> and
  \<open>measuredTrials\<close> of the first two lines, and \<open>buildTrial\<close> is the body of the loop
  for the counter \<open>t\<close>.
\<close>

definition practiceTrialsOf :: "Args \<Rightarrow> int" where
  "practiceTrialsOf args =
     (case arg_practiceTrials args of None \<Rightarrow> DEFAULT_PRACTICE_TRIALS | Some p \<Rightarrow> p)"

definition measuredTrialsOf :: "Args \<Rightarrow> int" where
  "measuredTrialsOf args =
     (case arg_measuredTrials args of None \<Rightarrow> DEFAULT_MEASURED_TRIALS | Some m \<Rightarrow> m)"

definition buildTrial :: "Args \<Rightarrow> int \<Rightarrow> nat list \<Rightarrow> nat list \<Rightarrow> nat \<Rightarrow> error + TrialPlan" where
  "buildTrial args practiceTrials balancedColorIndices balancedShapeIndices t =
     (let trialSeed =
            arg_participantNumber args * 100000 + arg_blockIndex args * 1000 + int t + 1
      in and_then
           (if arg_condition args = Shape then Inr ''black''
            else and_then (entry_at COLORS balancedColorIndices t) (\<lambda>color. Inr (fst color)))
           (\<lambda>targetColor.
         and_then
           (if arg_condition args = Color then Inr ''circle''
            else and_then (entry_at SHAPES balancedShapeIndices t) (\<lambda>shape. Inr (fst shape)))
           (\<lambda>targetShape.
         and_then
           (if arg_condition args = Color then buildItemsForColorOnlyTrial trialSeed
            else if arg_condition args = Shape then buildItemsForShapeOnlyTrial trialSeed
            else buildCombinedItemsForTarget trialSeed targetColor targetShape)
           (\<lambda>items.
         and_then (findItemForTarget items targetColor targetShape (arg_condition args))
           (\<lambda>correctItem.
         let promptText =
               (if arg_condition args = Color then ''Select the '' @ targetColor @ '' circle''
                else if arg_condition args = Shape then ''Select the '' @ targetShape
                else ''Select the '' @ targetColor @ '' '' @ targetShape)
         in Inr \<lparr>trial_id =
                   ''b'' @ numberToString (arg_blockIndex args) @ ''_t''
                     @ numberToString (int t + 1),
                 trial_blockIndex = arg_blockIndex args,
                 trial_blockOrder = arg_blockOrder args,
                 trial_condition = arg_condition args,
                 trialIndexInBlock = int t + 1,
                 isPractice = (int t < practiceTrials),
                 targetType = arg_condition args,
                 trial_targetColor = targetColor,
                 trial_targetShape = targetShape,
                 promptText = promptText,
                 correctItemId = item_id correctItem,
                 trial_items = items\<rparr>)))))"

definition generateBlockPlan :: "Args \<Rightarrow> error + BlockPlan" where
  "generateBlockPlan args =
     (let practiceTrials = practiceTrialsOf args;
          measuredTrials = measuredTrialsOf args;
          totalTrials = practiceTrials + measuredTrials;
          rand = seededRandom (arg_participantNumber args * 1000 + arg_blockIndex args * 77
                               + arg_blockOrder args * 19)
      in and_then (buildBalancedIndices (int (length COLORS)) practiceTrials rand)
           (\<lambda>(practiceColorIndices, rand1).
         and_then (buildBalancedIndices (int (length SHAPES)) practiceTrials rand1)
           (\<lambda>(practiceShapeIndices, rand2).
         and_then (buildBalancedIndices (int (length COLORS)) measuredTrials rand2)
           (\<lambda>(measuredColorIndices, rand3).
         and_then (buildBalancedIndices (int (length SHAPES)) measuredTrials rand3)
           (\<lambda>(measuredShapeIndices, rand4).
         let balancedColorIndices = practiceColorIndices @ measuredColorIndices;
             balancedShapeIndices = practiceShapeIndices @ measuredShapeIndices
         in and_then
              (traverse (buildTrial args practiceTrials balancedColorIndices balancedShapeIndices)
                 [0..<nat totalTrials])
              (\<lambda>trials.
            let practice = filter (\<lambda>trial. isPractice trial) trials;
                measured = filter (\<lambda>trial. \<not> isPractice trial) trials
            in Inr \<lparr>plan_blockIndex = arg_blockIndex args,
                    plan_blockOrder = arg_blockOrder args,
                    plan_condition = arg_condition args,
                    plan_practiceTrials = length practice,
                    plan_measuredTrials = length measured,
                    plan_trials = trials\<rparr>))))))"

text \<open>
  \<^verbatim>\<open>
  export function generateAllBlocks(participantNumber: number): BlockPlan[] {
    const assignedOrder = getLatinSquareOrder(participantNumber)
    return assignedOrder.map((condition, index) =>
      generateBlockPlan({
        participantNumber,
        blockIndex: index,
        blockOrder: index + 1,
        condition,
        practiceTrials: DEFAULT_PRACTICE_TRIALS,
        measuredTrials: DEFAULT_MEASURED_TRIALS,
      }),
    )
  }
  \<close>
  \<open>allBlocksArgs\<close> is the argument object of the call for one position of the order.
\<close>

definition allBlocksArgs :: "int \<Rightarrow> nat \<Rightarrow> Condition \<Rightarrow> Args" where
  "allBlocksArgs participantNumber index condition =
     \<lparr>arg_participantNumber = participantNumber,
      arg_blockIndex = int index,
      arg_blockOrder = int index + 1,
      arg_condition = condition,
      arg_practiceTrials = Some DEFAULT_PRACTICE_TRIALS,
      arg_measuredTrials = Some DEFAULT_MEASURED_TRIALS\<rparr>"

definition generateAllBlocks :: "int \<Rightarrow> error + BlockPlan list" where
  "generateAllBlocks participantNumber =
     and_then (defined (getLatinSquareOrder participantNumber)) (\<lambda>assignedOrder.
     traverse (\<lambda>(index, condition).
         generateBlockPlan (allBlocksArgs participantNumber index condition))
       (enumerate 0 assignedOrder))"

section \<open>The balance of the targets\<close>

text \<open>
  \<^verbatim>\<open>
  export function assertBalancedTargets(trials: TrialPlan[]) {
    const measured = trials.filter((trial) => !trial.isPractice)
    const colorCounts = new Map<string, number>()
    const shapeCounts = new Map<string, number>()
    for (const trial of measured) {
      colorCounts.set(trial.targetColor, (colorCounts.get(trial.targetColor) ?? 0) + 1)
      shapeCounts.set(trial.targetShape, (shapeCounts.get(trial.targetShape) ?? 0) + 1)
    }
    const colorValues = Array.from(colorCounts.values())
    const shapeValues = Array.from(shapeCounts.values())
    const maxColorDiff = Math.max(...colorValues) - Math.min(...colorValues)
    const maxShapeDiff = Math.max(...shapeValues) - Math.min(...shapeValues)
    return { maxColorDiff, maxShapeDiff }
  }
  \<close>
  A \<open>Map\<close> keeps its keys in the order of their first \<open>set\<close>: an association list
  with \<open>AList.update\<close>, which replaces the value of a key it holds and appends a new
  key. \<open>countTargets\<close> is the loop for one of the two maps. With no value at all
  \<open>Math.max()\<close> is \<open>-Infinity\<close> and \<open>Math.min()\<close> is \<open>Infinity\<close>, so the difference is
  \<open>-Infinity\<close>.
\<close>

datatype js_number = Finite int | NegInfinity

record Balance =
  maxColorDiff :: js_number
  maxShapeDiff :: js_number

definition countTargets :: "string list \<Rightarrow> (string \<times> nat) list" where
  "countTargets targets =
     fold (\<lambda>target counts.
        AList.update target ((case map_of counts target of None \<Rightarrow> 0 | Some c \<Rightarrow> c) + 1) counts)
       targets []"

definition spread :: "nat list \<Rightarrow> js_number" where
  "spread vals =
     (if vals = [] then NegInfinity
      else Finite (int (Max (set vals)) - int (Min (set vals))))"

definition assertBalancedTargets :: "TrialPlan list \<Rightarrow> Balance" where
  "assertBalancedTargets trials =
     (let measured = filter (\<lambda>trial. \<not> isPractice trial) trials;
          colorCounts = countTargets (map trial_targetColor measured);
          shapeCounts = countTargets (map trial_targetShape measured);
          colorValues = map snd colorCounts;
          shapeValues = map snd shapeCounts
      in \<lparr>maxColorDiff = spread colorValues, maxShapeDiff = spread shapeValues\<rparr>)"

section \<open>The closures on a heap\<close>

text \<open>
  The closure that \<open>seededRandom\<close> returns has one variable, \<open>state\<close>, and each call
  of the closure reads and writes it. To say what a call of \<open>generateBlockPlan\<close>
  depends on, the functions that draw from a closure are given here a second time with
  that variable in the open. A heap is the list of the \<open>state\<close> variables of all
  closures created so far, and a closure is the address of its variable:
  \<open>seededRandom_heap\<close> adds a variable to the heap and returns its address, and
  \<open>rand_call\<close> is one call \<open>rand()\<close>. An address is always one that
  \<open>seededRandom_heap\<close> has returned, hence a position of the heap. Nothing else
  reads or writes the heap; every function below passes it on and is otherwise, line
  for line, the function of the same name above. A run that throws returns the error
  alone.
\<close>

type_synonym heap = "int list"

definition seededRandom_heap :: "int \<Rightarrow> heap \<Rightarrow> addr \<times> heap" where
  "seededRandom_heap seed h = (length h, h @ [seededRandom_state seed])"

definition rand_call :: "addr \<Rightarrow> heap \<Rightarrow> rat \<times> heap" where
  "rand_call rand h =
     (let state = seededRandom_step (h ! rand)
      in (seededRandom_value state, h[rand := state]))"

text \<open>\<open>shuffle\<close>, with \<open>rand\<close> the address of the closure it is given.\<close>

fun shuffle_loop_heap :: "nat \<Rightarrow> 'a list \<Rightarrow> addr \<Rightarrow> heap \<Rightarrow> error + ('a list \<times> heap)" where
  "shuffle_loop_heap 0 nxt rand h = Inr (nxt, h)"
| "shuffle_loop_heap (Suc k) nxt rand h =
     (let (r, h1) = rand_call rand h;
          j = draw_index r (Suc k)
      in if 0 \<le> j \<and> j < int (length nxt)
         then shuffle_loop_heap k (swap (Suc k) (nat j) nxt) rand h1
         else Inl UndefinedElement)"

definition shuffle_heap :: "'a list \<Rightarrow> addr \<Rightarrow> heap \<Rightarrow> error + ('a list \<times> heap)" where
  "shuffle_heap array rand h = shuffle_loop_heap (length array - 1) array rand h"

text \<open>\<open>buildBalancedIndices\<close>: both calls of \<open>shuffle\<close> draw from the closure it is given.\<close>

definition buildBalancedIndices_heap ::
  "int \<Rightarrow> int \<Rightarrow> addr \<Rightarrow> heap \<Rightarrow> error + (nat list \<times> heap)" where
  "buildBalancedIndices_heap len cnt rand h =
     (if cnt \<le> 0 \<or> len \<le> 0 then Inr ([], h)
      else
        let baseRepeats = cnt div len;
            remainder = js_rem cnt len;
            indices = baseIndices (nat len) (nat baseRepeats)
        in if remainder > 0
           then (case shuffle_heap [0..<nat len] rand h of
                   Inl e \<Rightarrow> Inl e
                 | Inr (shuffled, h1) \<Rightarrow>
                     shuffle_heap (indices @ take (nat remainder) shuffled) rand h1)
           else shuffle_heap indices rand h)"

text \<open>
  The three functions that build the items of a trial: each creates its own closure
  from \<open>trialSeed\<close> and draws from no other.
\<close>

definition buildItemsForColorOnlyTrial_heap ::
  "int \<Rightarrow> heap \<Rightarrow> error + (StimulusItem list \<times> heap)" where
  "buildItemsForColorOnlyTrial_heap trialSeed h =
     (let (rand, h0) = seededRandom_heap trialSeed h
      in and_then (shuffle_heap [0..<length COLORS] rand h0) (\<lambda>(order, h1).
         and_then
           (traverse (\<lambda>(index, colorIndex).
               and_then (defined (js_index COLORS colorIndex)) (\<lambda>color.
               Inr \<lparr>item_id = ''item_'' @ decimal (index + 1),
                    colorName = fst color,
                    colorHex = snd color,
                    shapeName = ''circle'',
                    shapeSymbol = ''U+25CF''\<rparr>))
             (enumerate 0 order))
           (\<lambda>items. Inr (items, h1))))"

definition buildItemsForShapeOnlyTrial_heap ::
  "int \<Rightarrow> heap \<Rightarrow> error + (StimulusItem list \<times> heap)" where
  "buildItemsForShapeOnlyTrial_heap trialSeed h =
     (let (rand, h0) = seededRandom_heap trialSeed h
      in and_then (shuffle_heap [0..<length SHAPES] rand h0) (\<lambda>(order, h1).
         and_then
           (traverse (\<lambda>(index, shapeIndex).
               and_then (defined (js_index SHAPES shapeIndex)) (\<lambda>shape.
               Inr \<lparr>item_id = ''item_'' @ decimal (index + 1),
                    colorName = ''black'',
                    colorHex = ''#111111'',
                    shapeName = fst shape,
                    shapeSymbol = snd shape\<rparr>))
             (enumerate 0 order))
           (\<lambda>items. Inr (items, h1))))"

definition buildCombinedItemsForTarget_heap ::
  "int \<Rightarrow> string \<Rightarrow> string \<Rightarrow> heap \<Rightarrow> error + (StimulusItem list \<times> heap)" where
  "buildCombinedItemsForTarget_heap trialSeed targetColor targetShape h =
     (let (rand, h0) = seededRandom_heap trialSeed h
      in and_then (shuffle_heap (filter (\<lambda>color. fst color \<noteq> targetColor) COLORS) rand h0)
           (\<lambda>(remainingColors, h1).
         and_then (shuffle_heap (filter (\<lambda>shape. fst shape \<noteq> targetShape) SHAPES) rand h1)
           (\<lambda>(remainingShapes, h2).
         let target =
               ((targetColor,
                 case find (\<lambda>color. fst color = targetColor) COLORS of
                   Some color \<Rightarrow> snd color | None \<Rightarrow> ''#000000''),
                (targetShape,
                 case find (\<lambda>shape. fst shape = targetShape) SHAPES of
                   Some shape \<Rightarrow> snd shape | None \<Rightarrow> ''U+25A0''))
         in and_then
              (traverse (\<lambda>i.
                  and_then (defined (js_index remainingColors i)) (\<lambda>color.
                  and_then (defined (js_index remainingShapes i)) (\<lambda>shape.
                  Inr (color, shape))))
                [0..<7])
              (\<lambda>rest.
            and_then (shuffle_heap (target # rest) rand h2) (\<lambda>(orderedPairs, h3).
            Inr (map (\<lambda>(index, pair).
                   \<lparr>item_id = ''item_'' @ decimal (index + 1),
                    colorName = fst (fst pair),
                    colorHex = snd (fst pair),
                    shapeName = fst (snd pair),
                    shapeSymbol = snd (snd pair)\<rparr>)
                 (enumerate 0 orderedPairs), h3))))))"

text \<open>The body of the loop of \<open>generateBlockPlan\<close> for the counter \<open>t\<close>.\<close>

definition buildTrial_heap ::
  "Args \<Rightarrow> int \<Rightarrow> nat list \<Rightarrow> nat list \<Rightarrow> nat \<Rightarrow> heap \<Rightarrow> error + (TrialPlan \<times> heap)" where
  "buildTrial_heap args practiceTrials balancedColorIndices balancedShapeIndices t h =
     (let trialSeed =
            arg_participantNumber args * 100000 + arg_blockIndex args * 1000 + int t + 1
      in and_then
           (if arg_condition args = Shape then Inr ''black''
            else and_then (entry_at COLORS balancedColorIndices t) (\<lambda>color. Inr (fst color)))
           (\<lambda>targetColor.
         and_then
           (if arg_condition args = Color then Inr ''circle''
            else and_then (entry_at SHAPES balancedShapeIndices t) (\<lambda>shape. Inr (fst shape)))
           (\<lambda>targetShape.
         and_then
           (if arg_condition args = Color then buildItemsForColorOnlyTrial_heap trialSeed h
            else if arg_condition args = Shape then buildItemsForShapeOnlyTrial_heap trialSeed h
            else buildCombinedItemsForTarget_heap trialSeed targetColor targetShape h)
           (\<lambda>(items, h1).
         and_then (findItemForTarget items targetColor targetShape (arg_condition args))
           (\<lambda>correctItem.
         let promptText =
               (if arg_condition args = Color then ''Select the '' @ targetColor @ '' circle''
                else if arg_condition args = Shape then ''Select the '' @ targetShape
                else ''Select the '' @ targetColor @ '' '' @ targetShape)
         in Inr (\<lparr>trial_id =
                   ''b'' @ numberToString (arg_blockIndex args) @ ''_t''
                     @ numberToString (int t + 1),
                 trial_blockIndex = arg_blockIndex args,
                 trial_blockOrder = arg_blockOrder args,
                 trial_condition = arg_condition args,
                 trialIndexInBlock = int t + 1,
                 isPractice = (int t < practiceTrials),
                 targetType = arg_condition args,
                 trial_targetColor = targetColor,
                 trial_targetShape = targetShape,
                 promptText = promptText,
                 correctItemId = item_id correctItem,
                 trial_items = items\<rparr>, h1))))))"

text \<open>A loop over \<open>xs\<close> that pushes \<open>f x\<close>, for an \<open>f\<close> that works on the heap.\<close>

fun traverse_heap ::
  "('a \<Rightarrow> heap \<Rightarrow> error + ('b \<times> heap)) \<Rightarrow> 'a list \<Rightarrow> heap \<Rightarrow> error + ('b list \<times> heap)" where
  "traverse_heap f [] h = Inr ([], h)"
| "traverse_heap f (x # xs) h =
     and_then (f x h) (\<lambda>(y, h1).
     and_then (traverse_heap f xs h1) (\<lambda>(ys, h2). Inr (y # ys, h2)))"

text \<open>
  \<open>generateBlockPlan\<close>: it creates one closure for the four calls of
  \<open>buildBalancedIndices\<close>, and each trial creates one more.
\<close>

definition generateBlockPlan_heap :: "Args \<Rightarrow> heap \<Rightarrow> error + (BlockPlan \<times> heap)" where
  "generateBlockPlan_heap args h =
     (let practiceTrials = practiceTrialsOf args;
          measuredTrials = measuredTrialsOf args;
          totalTrials = practiceTrials + measuredTrials;
          (rand, h0) = seededRandom_heap (arg_participantNumber args * 1000
                         + arg_blockIndex args * 77 + arg_blockOrder args * 19) h
      in and_then (buildBalancedIndices_heap (int (length COLORS)) practiceTrials rand h0)
           (\<lambda>(practiceColorIndices, h1).
         and_then (buildBalancedIndices_heap (int (length SHAPES)) practiceTrials rand h1)
           (\<lambda>(practiceShapeIndices, h2).
         and_then (buildBalancedIndices_heap (int (length COLORS)) measuredTrials rand h2)
           (\<lambda>(measuredColorIndices, h3).
         and_then (buildBalancedIndices_heap (int (length SHAPES)) measuredTrials rand h3)
           (\<lambda>(measuredShapeIndices, h4).
         let balancedColorIndices = practiceColorIndices @ measuredColorIndices;
             balancedShapeIndices = practiceShapeIndices @ measuredShapeIndices
         in and_then
              (traverse_heap
                 (buildTrial_heap args practiceTrials balancedColorIndices balancedShapeIndices)
                 [0..<nat totalTrials] h4)
              (\<lambda>(trials, h5).
            let practice = filter (\<lambda>trial. isPractice trial) trials;
                measured = filter (\<lambda>trial. \<not> isPractice trial) trials
            in Inr (\<lparr>plan_blockIndex = arg_blockIndex args,
                    plan_blockOrder = arg_blockOrder args,
                    plan_condition = arg_condition args,
                    plan_practiceTrials = length practice,
                    plan_measuredTrials = length measured,
                    plan_trials = trials\<rparr>, h5)))))))"

text \<open>What the caller gets from a run: the value returned, or the error thrown.\<close>

definition returned :: "error + ('a \<times> heap) \<Rightarrow> error + 'a" where
  "returned outcome = (case outcome of Inl e \<Rightarrow> Inl e | Inr (x, h) \<Rightarrow> Inr x)"

section \<open>Properties of the generator\<close>

text \<open>
  On operands that are not negative \<open>%\<close> is \<open>mod\<close>, and its result always lies strictly
  between \<open>-b\<close> and \<open>b\<close>.
\<close>

lemma js_rem_nonneg: "0 \<le> a \<Longrightarrow> 0 < b \<Longrightarrow> js_rem a b = a mod b"
  by (cases "a = 0") (simp_all add: js_rem_def)

lemma js_rem_bounds: "0 < b \<Longrightarrow> - b < js_rem a b \<and> js_rem a b < b"
proof -
  assume b: "0 < b"
  have "0 \<le> \<bar>a\<bar> mod \<bar>b\<bar>" "\<bar>a\<bar> mod \<bar>b\<bar> < b" using b by simp_all
  then show ?thesis
    by (cases "a < 0"; cases "a = 0") (simp_all add: js_rem_def)
qed

lemma seededRandom_state_range:
  assumes "js_rem seed 2147483647 \<noteq> - 2147483646"
  shows "1 \<le> seededRandom_state seed \<and> seededRandom_state seed \<le> 2147483646"
  using assms js_rem_bounds [of 2147483647 seed]
  by (auto simp: seededRandom_state_def Let_def)

lemma seededRandom_state_nonneg:
  assumes "0 \<le> seed"
  shows "1 \<le> seededRandom_state seed \<and> seededRandom_state seed \<le> 2147483646"
proof (rule seededRandom_state_range)
  have "0 \<le> js_rem seed 2147483647" using assms by (simp add: js_rem_nonneg)
  then show "js_rem seed 2147483647 \<noteq> - 2147483646" by simp
qed

lemma step_nonzero:
  assumes "1 \<le> s" "s \<le> 2147483646"
  shows "(s * 16807) mod 2147483647 \<noteq> (0::int)"
proof
  assume z: "(s * 16807) mod 2147483647 = (0::int)"
  have "(s * 16807 * 1407677000) mod 2147483647 = ((s * 16807) mod 2147483647 * 1407677000) mod (2147483647::int)"
    by (simp add: mod_mult_left_eq)
  also have "\<dots> = 0" by (simp add: z)
  finally have a: "(s * (16807 * 1407677000)) mod 2147483647 = (0::int)" by (simp add: mult.assoc)
  have "(s * (16807 * 1407677000)) mod 2147483647 = (s * ((16807 * 1407677000) mod 2147483647)) mod (2147483647::int)"
    by (simp only: mod_mult_right_eq)
  also have "\<dots> = s mod 2147483647" by simp
  also have "\<dots> = s" using assms by simp
  finally show False using a assms by simp
qed

lemma seededRandom_step_range:
  assumes "1 \<le> s" "s \<le> 2147483646"
  shows "1 \<le> seededRandom_step s \<and> seededRandom_step s \<le> 2147483646"
proof -
  have e: "seededRandom_step s = (s * 16807) mod 2147483647"
    using assms by (simp add: seededRandom_step_def js_rem_nonneg)
  have "0 \<le> (s * 16807) mod 2147483647" "(s * 16807) mod 2147483647 < 2147483647"
    by simp_all
  with step_nonzero [OF assms] e show ?thesis by linarith
qed

lemma seededRandom_value_range:
  assumes "1 \<le> s" "s \<le> 2147483646"
  shows "0 \<le> seededRandom_value s \<and> seededRandom_value s < 1"
  using assms by (simp add: seededRandom_value_def)

lemma funpow_step_range:
  assumes "1 \<le> s" "s \<le> 2147483646"
  shows "1 \<le> (seededRandom_step ^^ n) s \<and> (seededRandom_step ^^ n) s \<le> 2147483646"
  using assms by (induction n) (simp_all add: seededRandom_step_range)

lemma seededRandom_closure_range:
  assumes "1 \<le> s" "s \<le> 2147483646" "x \<in> sset (seededRandom_closure s)"
  shows "0 \<le> x \<and> x < 1"
proof -
  from assms(3) obtain n where "x = seededRandom_closure s !! n"
    by (auto simp: sset_range)
  then have "x = seededRandom_value ((seededRandom_step ^^ n) (seededRandom_step s))"
    by (simp add: seededRandom_closure_def)
  moreover have "1 \<le> seededRandom_step s \<and> seededRandom_step s \<le> 2147483646"
    using assms by (simp add: seededRandom_step_range)
  ultimately show ?thesis
    using funpow_step_range seededRandom_value_range by simp
qed

lemma seededRandom_range:
  assumes "0 \<le> seed" "x \<in> sset (seededRandom seed)"
  shows "0 \<le> x \<and> x < 1"
  using assms seededRandom_state_nonneg [OF assms(1)]
  by (auto simp: seededRandom_def dest: seededRandom_closure_range [rotated 2])

lemma shd_closure: "shd (seededRandom_closure s) = seededRandom_value (seededRandom_step s)"
  by (simp add: seededRandom_closure_def)
lemma stl_closure: "stl (seededRandom_closure s) = seededRandom_closure (seededRandom_step s)"
  by (simp add: seededRandom_closure_def)

text \<open>
  A closure whose cell holds the state \<open>s\<close> returns the value of the next state and
  is then the closure of that state. With these two equations \<open>simp\<close> runs the
  generator on a concrete state, one draw at a time.
\<close>

lemma shuffle_loop_pos:
  "0 < i \<Longrightarrow> shuffle_loop i nxt rand =
     (let j = draw_index (shd rand) i
      in if 0 \<le> j \<and> j < int (length nxt)
         then shuffle_loop (i - 1) (swap i (nat j) nxt) (stl rand)
         else Inl UndefinedElement)"
  by (cases i) (simp_all add: Let_def)

lemma draw_index_value:
  "draw_index (seededRandom_value s) i = ((s - 1) * (int i + 1)) div 2147483646"
proof -
  have "seededRandom_value s * of_nat (i + 1)
          = (of_int ((s - 1) * (int i + 1)) :: rat) / of_int 2147483646"
    by (simp add: seededRandom_value_def)
  then show ?thesis unfolding draw_index_def
    by (simp only: floor_divide_of_int_eq)
qed

lemmas closure_eval =
  shd_closure stl_closure draw_index_value seededRandom_step_def js_rem_def
  shuffle_def shuffle_loop_pos swap_def

text \<open>
  C7: for every integer seed, \<open>seededRandom\<close> brings its state into 1..2147483646
  before the first draw, and every value of the stream lies in [0, 1). The source
  does not do that for the seed -2147483646 (and every seed with the same remainder):
  the remainder is -2147483646, the guard \<open>state <= 0\<close> adds 2147483646, and the state
  is 0. From then on the state stays 0 and each draw is \<open>-1/2147483646\<close>, which is
  negative: the stream is constant.
\<close>

theorem seededRandom_zero_state:
  "seededRandom_state (- 2147483646) = 0 \<and>
   shd (seededRandom (- 2147483646)) = - 1 / 2147483646 \<and>
   stl (seededRandom (- 2147483646)) = seededRandom (- 2147483646)"
  by (simp add: seededRandom_def seededRandom_state_def shd_closure stl_closure
        seededRandom_step_def seededRandom_value_def js_rem_def)

text \<open>
  For every other seed the claim holds: the state before the first draw lies in
  1..2147483646 and every value of the stream lies in [0, 1).
\<close>

theorem seededRandom_in_range:
  assumes "js_rem seed 2147483647 \<noteq> - 2147483646"
  shows "1 \<le> seededRandom_state seed \<and> seededRandom_state seed \<le> 2147483646 \<and>
         (\<forall>n. 0 \<le> seededRandom seed !! n \<and> seededRandom seed !! n < 1)"
proof -
  note st = seededRandom_state_range [OF assms]
  have "\<forall>n. 0 \<le> seededRandom seed !! n \<and> seededRandom seed !! n < 1"
  proof
    fix n
    have "seededRandom seed !! n \<in> sset (seededRandom_closure (seededRandom_state seed))"
      by (simp add: seededRandom_def snth_sset)
    then show "0 \<le> seededRandom seed !! n \<and> seededRandom seed !! n < 1"
      using st seededRandom_closure_range by blast
  qed
  with st show ?thesis by simp
qed

theorem seededRandom_in_range_witness:
  "1 \<le> seededRandom_state (- 5) \<and> seededRandom_state (- 5) \<le> 2147483646 \<and>
   seededRandom_state 2147483647 = 2147483646 \<and>
   0 \<le> seededRandom (- 5) !! 2 \<and> seededRandom (- 5) !! 2 < 1"
proof -
  have "js_rem (- 5) 2147483647 \<noteq> - 2147483646" by (simp add: js_rem_def)
  from seededRandom_in_range [OF this]
  have a: "1 \<le> seededRandom_state (- 5) \<and> seededRandom_state (- 5) \<le> 2147483646"
    and b: "\<forall>n. 0 \<le> seededRandom (- 5) !! n \<and> seededRandom (- 5) !! n < 1" by simp_all
  from b have "0 \<le> seededRandom (- 5) !! 2 \<and> seededRandom (- 5) !! 2 < 1" by (rule spec)
  moreover have "seededRandom_state 2147483647 = 2147483646"
    by (simp add: seededRandom_state_def js_rem_def)
  ultimately show ?thesis using a by (intro conjI) (elim conjE, assumption)+
qed

section \<open>Properties of shuffle\<close>

text \<open>
  A draw in [0, 1) gives an index \<open>j\<close> between 0 and \<open>i\<close>. (So does the product in
  floating point: a float below 1 times \<open>i + 1\<close> rounds to a float below \<open>i + 1\<close>.)
\<close>

lemma draw_index_range:
  assumes "0 \<le> r" "r < 1"
  shows "0 \<le> draw_index r i \<and> draw_index r i \<le> int i"
proof -
  have "0 \<le> r * of_nat (i + 1)" using assms by simp
  then have lo: "0 \<le> draw_index r i" by (simp add: draw_index_def)
  have pos: "0 < (of_nat (i + 1) :: rat)" by simp
  have "r * of_nat (i + 1) < 1 * of_nat (i + 1)"
    by (rule mult_strict_right_mono [OF assms(2) pos])
  moreover have "(1::rat) * of_nat (i + 1) = of_int (int i + 1)" by simp
  ultimately have "r * of_nat (i + 1) < of_int (int i + 1)" by (simp only:)
  then have "draw_index r i < int i + 1" unfolding draw_index_def by (simp only: floor_less_iff)
  with lo show ?thesis by simp
qed

lemma length_swap [simp]: "length (swap i j xs) = length xs"
  by (simp add: swap_def)

lemma mset_swap_eq: "i < length xs \<Longrightarrow> j < length xs \<Longrightarrow> mset (swap i j xs) = mset xs"
  using mset_swap [of j xs i] by (simp add: swap_def)

lemma shuffle_loop_result:
  assumes "shuffle_loop k xs rand = Inr (ys, rand')" "k < length xs \<or> k = 0"
  shows "mset ys = mset xs \<and> length ys = length xs \<and> rand' = sdrop k rand"
  using assms
proof (induction k arbitrary: xs rand)
  case 0
  then show ?case by simp
next
  case (Suc k)
  let ?j = "draw_index (shd rand) (Suc k)"
  from Suc.prems have len: "Suc k < length xs" by simp
  from Suc.prems(1) have inr: "0 \<le> ?j \<and> ?j < int (length xs)"
    by (simp add: Let_def split: if_splits)
  with Suc.prems(1) have rec: "shuffle_loop k (swap (Suc k) (nat ?j) xs) (stl rand) = Inr (ys, rand')"
    by (simp add: Let_def)
  have "k < length (swap (Suc k) (nat ?j) xs) \<or> k = 0" using len by simp
  from Suc.IH [OF rec this] have
    "mset ys = mset (swap (Suc k) (nat ?j) xs) \<and> length ys = length xs \<and> rand' = sdrop k (stl rand)"
    by simp
  moreover have "mset (swap (Suc k) (nat ?j) xs) = mset xs"
    using len inr by (intro mset_swap_eq) auto
  ultimately show ?case by simp
qed

lemma shuffle_loop_succeeds:
  assumes "\<forall>x\<in>sset rand. 0 \<le> x \<and> x < 1" "k < length xs \<or> k = 0"
  shows "\<exists>ys. shuffle_loop k xs rand = Inr (ys, sdrop k rand)"
  using assms
proof (induction k arbitrary: xs rand)
  case 0
  then show ?case by simp
next
  case (Suc k)
  let ?j = "draw_index (shd rand) (Suc k)"
  from Suc.prems have len: "Suc k < length xs" by simp
  have "shd rand \<in> sset rand" by (simp add: shd_sset)
  with Suc.prems(1) have "0 \<le> shd rand \<and> shd rand < 1" by blast
  then have "0 \<le> ?j \<and> ?j \<le> int (Suc k)" using draw_index_range by blast
  with len have inr: "0 \<le> ?j \<and> ?j < int (length xs)" by linarith
  have "\<forall>x\<in>sset (stl rand). 0 \<le> x \<and> x < 1"
    using Suc.prems(1) by (metis stl_sset)
  moreover have "k < length (swap (Suc k) (nat ?j) xs) \<or> k = 0" using len by simp
  ultimately obtain ys where
    "shuffle_loop k (swap (Suc k) (nat ?j) xs) (stl rand) = Inr (ys, sdrop k (stl rand))"
    using Suc.IH by blast
  with inr show ?case by (simp add: Let_def)
qed

lemma shuffle_result:
  assumes "shuffle xs rand = Inr (ys, rand')"
  shows "mset ys = mset xs \<and> length ys = length xs \<and> rand' = sdrop (length xs - 1) rand"
proof -
  have "length xs - 1 < length xs \<or> length xs - 1 = 0" by (cases xs) simp_all
  with assms shuffle_loop_result show ?thesis unfolding shuffle_def by blast
qed

lemma shuffle_succeeds:
  assumes "\<forall>x\<in>sset rand. 0 \<le> x \<and> x < 1"
  shows "\<exists>ys. shuffle xs rand = Inr (ys, sdrop (length xs - 1) rand)"
proof -
  have "length xs - 1 < length xs \<or> length xs - 1 = 0" by (cases xs) simp_all
  with assms shuffle_loop_succeeds show ?thesis unfolding shuffle_def by blast
qed

lemma sset_sdrop_range:
  assumes "\<forall>x\<in>sset rand. 0 \<le> x \<and> x < (1::rat)"
  shows "\<forall>x\<in>sset (sdrop n rand). 0 \<le> x \<and> x < 1"
proof
  fix x assume "x \<in> sset (sdrop n rand)"
  then obtain m where "x = sdrop n rand !! m" by (auto simp: sset_range)
  then have "x = rand !! (n + m)" by (simp add: sdrop_snth)
  then have "x \<in> sset rand" by (simp add: snth_sset)
  with assms show "0 \<le> x \<and> x < 1" by blast
qed

lemma shuffle_loop_store_eq:
  assumes "nxt < length st"
  shows "shuffle_loop_store k nxt rand st =
     (case shuffle_loop k (st ! nxt) rand of
        Inl e \<Rightarrow> Inl e
      | Inr (ys, rand') \<Rightarrow> Inr (st[nxt := ys], rand'))"
  using assms
proof (induction k arbitrary: st rand)
  case 0
  then show ?case by simp
next
  case (Suc k)
  let ?j = "draw_index (shd rand) (Suc k)"
  let ?st = "st[nxt := swap (Suc k) (nat ?j) (st ! nxt)]"
  have "nxt < length ?st" using Suc.prems by simp
  from Suc.IH [OF this, of "stl rand"] Suc.prems
  show ?case by (simp add: Let_def split: sum.splits)
qed

text \<open>
  C8: for every array and every random stream (a stream of values in [0, 1)),
  \<open>shuffle\<close> returns a fresh array, that is one at an address the store did not have
  before; it is a rearrangement of the array given (the same elements with the same
  multiplicities); every array the store had before, the one given among them, is
  unchanged; and the stream is left \<open>length - 1\<close> draws further (no draw for the empty
  array, as for an array of one element). The contents of the new array is what
  the function \<open>shuffle\<close> on lists computes.
\<close>

theorem shuffle_store_permutation:
  assumes "array < length st" "\<forall>x\<in>sset rand. 0 \<le> x \<and> x < 1"
  shows "\<exists>st'. shuffle_store array rand st
                  = Inr (length st, st', sdrop (length (st ! array) - 1) rand) \<and>
               length st' = Suc (length st) \<and>
               (\<forall>a<length st. st' ! a = st ! a) \<and>
               mset (st' ! length st) = mset (st ! array) \<and>
               shuffle (st ! array) rand
                  = Inr (st' ! length st, sdrop (length (st ! array) - 1) rand)"
proof -
  let ?xs = "st ! array"
  let ?st1 = "st @ [?xs]"
  from shuffle_succeeds [OF assms(2)] obtain ys where
    ys: "shuffle ?xs rand = Inr (ys, sdrop (length ?xs - 1) rand)" by blast
  from shuffle_result [OF ys] have m: "mset ys = mset ?xs" by simp
  have "length st < length ?st1" by simp
  from shuffle_loop_store_eq [OF this, of "length ?xs - 1" rand] ys
  have "shuffle_loop_store (length ?xs - 1) (length st) rand ?st1
          = Inr (?st1[length st := ys], sdrop (length ?xs - 1) rand)"
    by (simp add: shuffle_def)
  then have r: "shuffle_store array rand st
          = Inr (length st, st @ [ys], sdrop (length ?xs - 1) rand)"
    by (simp add: shuffle_store_def alloc_def)
  have f: "\<forall>a<length st. (st @ [ys]) ! a = st ! a" by (simp add: nth_append)
  show ?thesis
    using r f m ys by (intro exI [of _ "st @ [ys]"]) simp
qed

lemma shuffle_example:
  "shuffle [10, 20, 30, 40 :: nat] (seededRandom 42)
     = Inr ([40, 30, 20, 10], seededRandom_closure 1579310009)"
  by (simp add: seededRandom_def seededRandom_state_def closure_eval)

theorem shuffle_store_permutation_witness:
  "\<exists>st'. shuffle_store 0 (seededRandom 42) [[10, 20, 30, 40 :: nat]]
            = Inr (1, st', stl (stl (stl (seededRandom 42)))) \<and>
         length st' = 2 \<and>
         st' ! 0 = [10, 20, 30, 40] \<and>
         st' ! 1 = [40, 30, 20, 10]"
proof -
  have "\<forall>x\<in>sset (seededRandom 42). 0 \<le> x \<and> x < 1"
    using seededRandom_range [of 42] by simp
  from shuffle_store_permutation [of 0 "[[10, 20, 30, 40 :: nat]]", OF _ this]
  show ?thesis by (auto simp: shuffle_example)
qed

section \<open>Properties of the balanced indices\<close>

lemma count_list_replicate: "count_list (replicate b x) i = (if i = x then b else 0)"
  by (induction b) auto

lemma count_baseIndices: "count_list (baseIndices n b) i = (if i < n then b else 0)"
  by (induction n) (auto simp: baseIndices_def count_list_replicate)

lemma length_baseIndices: "length (baseIndices n b) = n * b"
  by (induction n) (auto simp: baseIndices_def)

lemma count_list_mset: "mset xs = mset ys + mset zs \<Longrightarrow> count_list xs i = count_list ys i + count_list zs i"
proof -
  assume "mset xs = mset ys + mset zs"
  then have "count (mset xs) i = count (mset ys) i + count (mset zs) i" by simp
  then show ?thesis by (simp only: count_mset)
qed

lemma count_list_distinct: "distinct xs \<Longrightarrow> count_list xs i = (if i \<in> set xs then 1 else 0)"
  by (induction xs) auto

lemma balanced_counts:
  assumes "mset xs = mset (baseIndices n b) + mset extra" "distinct extra" "set extra \<subseteq> {0..<n}"
  shows "count_list xs i = (if i < n then b else 0) + (if i \<in> set extra then 1 else 0)"
    and "\<not> i < n \<Longrightarrow> count_list xs i = 0"
    and "length xs = n * b + length extra"
proof -
  show c: "count_list xs i = (if i < n then b else 0) + (if i \<in> set extra then 1 else 0)"
    using count_list_mset [OF assms(1), of i] count_list_distinct [OF assms(2), of i]
    by (simp only: count_baseIndices)
  have "\<not> i < n \<Longrightarrow> i \<notin> set extra" using assms(3) by auto
  then show "\<not> i < n \<Longrightarrow> count_list xs i = 0"
    using c by simp
  have "length xs = size (mset xs)" by simp
  also have "\<dots> = length (baseIndices n b) + length extra" by (simp add: assms(1))
  finally show "length xs = n * b + length extra" by (simp add: length_baseIndices)
qed

lemma div_mod_nat:
  assumes "0 < len" "0 < cnt"
  shows "nat len * nat (cnt div len) + nat (cnt mod len) = nat (cnt::int)"
proof -
  have "0 \<le> cnt div len" "0 \<le> cnt mod len" using assms by (simp_all add: pos_imp_zdiv_nonneg_iff)
  then have "int (nat len * nat (cnt div len) + nat (cnt mod len)) = len * (cnt div len) + cnt mod len"
    using assms by simp
  also have "\<dots> = cnt" by simp
  finally show ?thesis by linarith
qed


lemma perm_upt:
  assumes "mset sh = mset [0..<n]"
  shows "distinct sh" and "set sh = {0..<n}"
proof -
  show "distinct sh" using assms mset_eq_imp_distinct_iff [of sh "[0..<n]"] by simp
  show "set sh = {0..<n}" using mset_eq_setD [OF assms] by simp
qed



lemma buildBalancedIndices_unfold:
  assumes "0 < len" "0 < cnt"
  shows "buildBalancedIndices len cnt rand =
      (if 0 < cnt mod len
       then (case shuffle [0..<nat len] rand of
               Inl e \<Rightarrow> Inl e
             | Inr (shuffled, rand1) \<Rightarrow>
                 shuffle (baseIndices (nat len) (nat (cnt div len))
                            @ take (nat (cnt mod len)) shuffled) rand1)
       else shuffle (baseIndices (nat len) (nat (cnt div len))) rand)"
proof -
  have "js_rem cnt len = cnt mod len" using assms by (simp add: js_rem_nonneg)
  then show ?thesis using assms by (simp add: buildBalancedIndices_def Let_def)
qed

lemma buildBalancedIndices_result:
  assumes "0 < len" "0 < cnt" "buildBalancedIndices len cnt rand = Inr (xs, rand')"
  shows "\<exists>extra. mset xs = mset (baseIndices (nat len) (nat (cnt div len))) + mset extra \<and>
           distinct extra \<and> set extra \<subseteq> {0..<nat len} \<and> length extra = nat (cnt mod len)"
proof -
  let ?n = "nat len" and ?b = "nat (cnt div len)" and ?r = "nat (cnt mod len)"
  let ?base = "baseIndices ?n ?b"
  note unfold = buildBalancedIndices_unfold [OF assms(1,2), of rand]
  show ?thesis
  proof (cases "0 < cnt mod len")
    case True
    with assms(3) unfold obtain sh rand1 where
      sh: "shuffle [0..<?n] rand = Inr (sh, rand1)" and
      xs: "shuffle (?base @ take ?r sh) rand1 = Inr (xs, rand')"
      by (auto split: sum.splits)
    from shuffle_result [OF sh] have msh: "mset sh = mset [0..<?n]" and lsh: "length sh = ?n"
      by simp_all
    note p = perm_upt [OF msh]
    let ?extra = "take ?r sh"
    from shuffle_result [OF xs] have mxs: "mset xs = mset ?base + mset ?extra" by simp
    have "cnt mod len < len" using assms by simp
    then have lex: "length ?extra = ?r" using lsh assms by simp
    have d: "distinct ?extra" using p(1) by simp
    have s: "set ?extra \<subseteq> {0..<?n}" using p(2) set_take_subset [of ?r sh] by simp
    show ?thesis by (intro exI [of _ ?extra] conjI mxs d s lex)
  next
    case False
    then have z: "cnt mod len = 0" using assms by (simp add: order_less_le)
    from False assms(3) unfold have xs: "shuffle ?base rand = Inr (xs, rand')" by simp
    from shuffle_result [OF xs] have mxs: "mset xs = mset ?base + mset []" by simp
    show ?thesis using mxs z by (intro exI [of _ "[]"]) simp
  qed
qed

lemma buildBalancedIndices_succeeds:
  assumes "\<forall>x\<in>sset rand. 0 \<le> x \<and> x < 1"
  shows "\<exists>xs n. buildBalancedIndices len cnt rand = Inr (xs, sdrop n rand)"
proof (cases "cnt \<le> 0 \<or> len \<le> 0")
  case True
  then have "buildBalancedIndices len cnt rand = Inr ([], sdrop 0 rand)"
    by (simp add: buildBalancedIndices_def)
  then show ?thesis by blast
next
  case False
  then have pos: "0 < len" "0 < cnt" by simp_all
  let ?n = "nat len" and ?b = "nat (cnt div len)" and ?r = "nat (cnt mod len)"
  let ?base = "baseIndices ?n ?b"
  note unfold = buildBalancedIndices_unfold [OF pos, of rand]
  show ?thesis
  proof (cases "0 < cnt mod len")
    case True
    from shuffle_succeeds [OF assms] obtain sh where
      sh: "shuffle [0..<?n] rand = Inr (sh, sdrop (length [0..<?n] - 1) rand)" by blast
    let ?rand1 = "sdrop (length [0..<?n] - 1) rand"
    let ?ys = "?base @ take ?r sh"
    have r1: "\<forall>x\<in>sset ?rand1. 0 \<le> x \<and> x < 1"
      by (rule sset_sdrop_range [OF assms])
    from shuffle_succeeds [OF r1] obtain xs where
      xs: "shuffle ?ys ?rand1 = Inr (xs, sdrop (length ?ys - 1) ?rand1)"
      by blast
    have "buildBalancedIndices len cnt rand
            = Inr (xs, sdrop (length [0..<?n] - 1 + (length ?ys - 1)) rand)"
      unfolding unfold using True sh xs by simp
    then show ?thesis by blast
  next
    case False
    from shuffle_succeeds [OF assms] obtain xs where
      xs: "shuffle ?base rand = Inr (xs, sdrop (length ?base - 1) rand)" by blast
    have "buildBalancedIndices len cnt rand = Inr (xs, sdrop (length ?base - 1) rand)"
      unfolding unfold using False xs by simp
    then show ?thesis by blast
  qed
qed

lemma buildBalancedIndices_rest:
  assumes "buildBalancedIndices len cnt rand = Inr (xs, rand')"
  shows "\<exists>n. rand' = sdrop n rand"
proof (cases "cnt \<le> 0 \<or> len \<le> 0")
  case True
  with assms have "rand' = sdrop 0 rand" by (simp add: buildBalancedIndices_def)
  then show ?thesis by blast
next
  case False
  then have pos: "0 < len" "0 < cnt" by simp_all
  note unfold = buildBalancedIndices_unfold [OF pos, of rand]
  show ?thesis
  proof (cases "0 < cnt mod len")
    case True
    with assms unfold obtain sh rand1 ys where
      sh: "shuffle [0..<nat len] rand = Inr (sh, rand1)" and
      xs: "shuffle ys rand1 = Inr (xs, rand')"
      by (auto split: sum.splits)
    from shuffle_result [OF sh] shuffle_result [OF xs]
    have "rand' = sdrop (length [0..<nat len] - 1 + (length ys - 1)) rand" by simp
    then show ?thesis by blast
  next
    case False
    with assms unfold shuffle_result show ?thesis by (metis (no_types, lifting))
  qed
qed

lemma buildBalancedIndices_empty:
  assumes "cnt \<le> 0 \<or> len \<le> 0"
  shows "buildBalancedIndices len cnt rand = Inr ([], rand)"
  using assms by (simp add: buildBalancedIndices_def)

text \<open>
  C9: whenever \<open>sampleCount \<le> 0\<close> or \<open>categoryCount \<le> 0\<close>, \<open>buildBalancedIndices\<close>
  returns the empty sequence: no error is raised, and the stream is the one given, so
  no draw is consumed.
\<close>

theorem buildBalancedIndices_degenerate:
  assumes "sampleCount \<le> 0 \<or> categoryCount \<le> 0"
  shows "buildBalancedIndices categoryCount sampleCount rand = Inr ([], rand)"
  using assms by (rule buildBalancedIndices_empty)

theorem buildBalancedIndices_degenerate_witness:
  "buildBalancedIndices 8 0 (seededRandom 7) = Inr ([], seededRandom 7) \<and>
   buildBalancedIndices 8 (- 3) (seededRandom 7) = Inr ([], seededRandom 7) \<and>
   buildBalancedIndices 0 10 (seededRandom 7) = Inr ([], seededRandom 7) \<and>
   buildBalancedIndices (- 1) 10 (seededRandom 7) = Inr ([], seededRandom 7)"
  using buildBalancedIndices_degenerate [of 0 8 "seededRandom 7"]
    buildBalancedIndices_degenerate [of "- 3" 8 "seededRandom 7"]
    buildBalancedIndices_degenerate [of 10 0 "seededRandom 7"]
    buildBalancedIndices_degenerate [of 10 "- 1" "seededRandom 7"]
  by simp

text \<open>
  C3: for \<open>categoryCount > 0\<close>, \<open>sampleCount > 0\<close> and every random stream (a stream
  of values in [0, 1)), \<open>buildBalancedIndices\<close> returns a sequence of length
  \<open>sampleCount\<close> whose elements are all below \<open>categoryCount\<close>; each category index
  occurs \<open>sampleCount div categoryCount\<close> times or once more, so the counts of two
  categories differ by at most 1; and all counts are equal when \<open>categoryCount\<close>
  divides \<open>sampleCount\<close>.
\<close>

theorem buildBalancedIndices_balanced:
  assumes "0 < categoryCount" "0 < sampleCount" "\<forall>x\<in>sset rand. 0 \<le> x \<and> x < 1"
  shows "\<exists>xs rand'. buildBalancedIndices categoryCount sampleCount rand = Inr (xs, rand') \<and>
           length xs = nat sampleCount \<and>
           (\<forall>x\<in>set xs. x < nat categoryCount) \<and>
           (\<forall>i<nat categoryCount.
              count_list xs i = nat (sampleCount div categoryCount) \<or>
              count_list xs i = nat (sampleCount div categoryCount) + 1) \<and>
           (categoryCount dvd sampleCount \<longrightarrow>
              (\<forall>i<nat categoryCount. count_list xs i = nat (sampleCount div categoryCount)))"
proof -
  let ?n = "nat categoryCount" and ?b = "nat (sampleCount div categoryCount)"
  from buildBalancedIndices_succeeds [OF assms(3)] obtain xs n where
    r: "buildBalancedIndices categoryCount sampleCount rand = Inr (xs, sdrop n rand)"
    by blast
  from buildBalancedIndices_result [OF assms(1,2) r] obtain extra where
    m: "mset xs = mset (baseIndices ?n ?b) + mset extra" and
    d: "distinct extra" and s: "set extra \<subseteq> {0..<?n}" and
    l: "length extra = nat (sampleCount mod categoryCount)" by (elim exE conjE)
  note bc = balanced_counts [OF m d s]
  have len: "length xs = nat sampleCount"
    using bc(3) l div_mod_nat [OF assms(1,2)] by linarith
  have rng: "\<forall>x\<in>set xs. x < ?n"
  proof
    fix x assume "x \<in> set xs"
    then have "count_list xs x \<noteq> 0" by (simp add: count_list_0_iff)
    then show "x < ?n" using bc(2) [of x] by (cases "x < ?n") simp_all
  qed
  have cnt: "\<forall>i<?n. count_list xs i = ?b \<or> count_list xs i = ?b + 1"
  proof (intro allI impI)
    fix i assume "i < ?n"
    then show "count_list xs i = ?b \<or> count_list xs i = ?b + 1"
      using bc(1) [of i] by simp
  qed
  have ex: "categoryCount dvd sampleCount \<longrightarrow> (\<forall>i<?n. count_list xs i = ?b)"
  proof (intro impI allI)
    fix i assume dv: "categoryCount dvd sampleCount" and i: "i < ?n"
    from dv have "sampleCount mod categoryCount = 0" by (simp add: mod_eq_0_iff_dvd)
    with l have "extra = []" by simp
    then show "count_list xs i = ?b" using i bc(1) [of i] by simp
  qed
  show ?thesis
    by (intro exI [of _ xs] exI [of _ "sdrop n rand"] conjI r len rng cnt ex)
qed

lemma buildBalancedIndices_example:
  "buildBalancedIndices 8 10 (seededRandom 123456019)
     = Inr ([4, 3, 1, 0, 6, 2, 5, 7, 6, 3], seededRandom_closure 284948538)"
  by (simp add: buildBalancedIndices_def baseIndices_def seededRandom_def seededRandom_state_def
        closure_eval upt_rec)

theorem buildBalancedIndices_balanced_witness:
  "\<exists>rand'. buildBalancedIndices 8 10 (seededRandom 123456019)
              = Inr ([4, 3, 1, 0, 6, 2, 5, 7, 6, 3], rand') \<and>
            length [4, 3, 1, 0, 6, 2, 5, 7, 6, 3 :: nat] = nat 10 \<and>
            count_list [4, 3, 1, 0, 6, 2, 5, 7, 6, 3 :: nat] 6 = nat (10 div 8) + 1 \<and>
            count_list [4, 3, 1, 0, 6, 2, 5, 7, 6, 3 :: nat] 0 = nat (10 div 8)"
proof -
  have "\<forall>x\<in>sset (seededRandom 123456019). 0 \<le> x \<and> x < 1"
    using seededRandom_range [of 123456019] by simp
  from buildBalancedIndices_balanced [of 8 10, OF _ _ this]
  show ?thesis by (simp add: buildBalancedIndices_example)
qed

section \<open>Properties of the helpers\<close>

lemma and_then_Inr [simp]: "and_then (Inr x) f = f x"
  by (simp add: and_then_def)

lemma and_then_Inl [simp]: "and_then (Inl e) f = Inl e"
  by (simp add: and_then_def)

lemma and_then_eq_Inr: "and_then m f = Inr y \<longleftrightarrow> (\<exists>x. m = Inr x \<and> f x = Inr y)"
  by (cases m) simp_all

lemma and_then_eq_Inl:
  "and_then m f = Inl e \<longleftrightarrow> m = Inl e \<or> (\<exists>x. m = Inr x \<and> f x = Inl e)"
  by (cases m) simp_all

lemma traverse_Inr: "traverse f xs = Inr ys \<longleftrightarrow> list_all2 (\<lambda>x y. f x = Inr y) xs ys"
proof (induction xs arbitrary: ys)
  case Nil
  then show ?case by auto
next
  case (Cons x xs)
  show ?case
  proof (cases ys)
    case Nil
    then show ?thesis by (auto simp: and_then_eq_Inr)
  next
    case (Cons y ys')
    then show ?thesis using Cons.IH [of ys'] by (auto simp: and_then_eq_Inr)
  qed
qed

lemma traverse_Inl: "traverse f xs = Inl e \<Longrightarrow> \<exists>x\<in>set xs. f x = Inl e"
  by (induction xs) (auto simp: and_then_eq_Inl)

lemma traverse_succeeds:
  "(\<And>x. x \<in> set xs \<Longrightarrow> \<exists>y. f x = Inr y) \<Longrightarrow> \<exists>ys. traverse f xs = Inr ys"
proof (induction xs)
  case Nil
  then show ?case by simp
next
  case (Cons x xs)
  then obtain y ys where "f x = Inr y" "traverse f xs = Inr ys" by (meson list.set_intros)
  then show ?case by simp
qed

lemma traverse_map:
  "(\<And>x. x \<in> set xs \<Longrightarrow> f x = Inr (g x)) \<Longrightarrow> traverse f xs = Inr (map g xs)"
  by (induction xs) simp_all

lemma traverse_nth:
  assumes "traverse f xs = Inr ys"
  shows "length ys = length xs" and "i < length xs \<Longrightarrow> f (xs ! i) = Inr (ys ! i)"
  using assms by (auto simp: traverse_Inr list_all2_conv_all_nth)

lemma defined_js_index: "i < length xs \<Longrightarrow> defined (js_index xs i) = Inr (xs ! i)"
  by (simp add: defined_def js_index_def)

lemma defined_js_index_Inr: "defined (js_index xs i) = Inr x \<Longrightarrow> i < length xs \<and> x = xs ! i"
  by (auto simp: defined_def js_index_def split: if_splits)

lemma defined_js_index_Inl: "defined (js_index xs i) = Inl e \<Longrightarrow> e = TypeError"
  by (auto simp: defined_def js_index_def split: if_splits)

lemma entry_at_Inr:
  "entry_at table xs t = Inr x \<Longrightarrow> t < length xs \<and> xs ! t < length table \<and> table ! (xs ! t) = x"
  by (auto simp: entry_at_def js_index_def defined_def split: if_splits option.splits)

lemma entry_at_Inl: "entry_at table xs t = Inl e \<Longrightarrow> e = TypeError"
  by (auto simp: entry_at_def js_index_def defined_def split: if_splits option.splits)

lemma entry_at_succeeds:
  "t < length xs \<Longrightarrow> xs ! t < length table \<Longrightarrow> entry_at table xs t = Inr (table ! (xs ! t))"
  by (simp add: entry_at_def js_index_def defined_def)

lemma filter_single_find: "filter P xs = [x] \<Longrightarrow> find P xs = Some x"
proof (induction xs)
  case Nil
  then show ?case by simp
next
  case (Cons a xs)
  then show ?case by (cases "P a") (auto simp: filter_empty_conv find_None_iff)
qed

lemma length_filter_one: "length (filter P xs) = 1 \<Longrightarrow> \<exists>x. filter P xs = [x]"
  by (cases "filter P xs") simp_all

lemma length_filter_mset_eq:
  "mset xs = mset ys \<Longrightarrow> length (filter P xs) = length (filter P ys)"
proof -
  assume "mset xs = mset ys"
  then have "mset (filter P xs) = mset (filter P ys)" by simp
  then show ?thesis by (metis size_mset)
qed

lemma filter_map_enumerate:
  assumes "\<And>i x. P (g i x) = Q x"
  shows "length (filter P (map (\<lambda>(i, x). g i x) (enumerate n xs))) = length (filter Q xs)"
proof (induction xs arbitrary: n)
  case Nil
  then show ?case by simp
next
  case (Cons a xs)
  then show ?case using assms by simp
qed

lemma distinct_filter_eq_one:
  "distinct (map f xs) \<Longrightarrow> x \<in> set xs \<Longrightarrow> length (filter (\<lambda>y. f y = f x) xs) = 1"
proof (induction xs)
  case Nil
  then show ?case by simp
next
  case (Cons a xs)
  show ?case
  proof (cases "f a = f x")
    case True
    then have "\<forall>y\<in>set xs. f y \<noteq> f x" using Cons.prems(1) by (auto simp: image_iff)
    then have "filter (\<lambda>y. f y = f x) xs = []" by (simp add: filter_empty_conv)
    with True show ?thesis by simp
  next
    case False
    then have "x \<in> set xs" using Cons.prems(2) by auto
    with Cons False show ?thesis by simp
  qed
qed

lemma distinct_filter_neq:
  "distinct (map f xs) \<Longrightarrow> length xs - 1 \<le> length (filter (\<lambda>y. f y \<noteq> a) xs)"
proof (induction xs)
  case Nil
  then show ?case by simp
next
  case (Cons b xs)
  show ?case
  proof (cases "f b = a")
    case True
    then have "\<forall>y\<in>set xs. f y \<noteq> a" using Cons.prems by (auto simp: image_iff)
    then have "filter (\<lambda>y. f y \<noteq> a) xs = xs" by (simp add: filter_id_conv)
    with True show ?thesis by simp
  next
    case False
    with Cons show ?thesis by auto
  qed
qed

lemma distinct_COLORS: "distinct (map fst COLORS)" and length_COLORS: "length COLORS = 8"
  by (simp_all add: COLORS_def)

lemma distinct_SHAPES: "distinct (map fst SHAPES)" and length_SHAPES: "length SHAPES = 8"
  by (simp_all add: SHAPES_def)


lemma shuffle_loop_error: "shuffle_loop k xs rand = Inl e \<Longrightarrow> e = UndefinedElement"
  by (induction k arbitrary: xs rand) (auto simp: Let_def split: if_splits)

lemma shuffle_error: "shuffle xs rand = Inl e \<Longrightarrow> e = TypeError \<or> e = UndefinedElement"
  by (auto simp: shuffle_def dest: shuffle_loop_error)

section \<open>Properties of the items of a trial\<close>

text \<open>
  Whenever one of the three builders returns, it returns 8 items with the identifiers
  \<open>item_1\<close> to \<open>item_8\<close> in this order; a colour-only grid holds each colour of the
  table once, a shape-only grid each shape once, and a combined grid exactly one item
  with the target's colour and shape, because every other item has a colour that was
  filtered for being different from the target's. For a seed that is not negative the
  builder does return. An error can only be \<open>TypeError\<close> or \<open>UndefinedElement\<close>.
\<close>

lemma map_nth_table: "map (\<lambda>i. f (xs ! i)) [0..<length xs] = map f xs"
proof -
  have "map (\<lambda>i. f (xs ! i)) [0..<length xs] = map f (map (\<lambda>i. xs ! i) [0..<length xs])"
    by simp
  then show ?thesis by (simp only: map_nth)
qed

lemma one_index_per_name:
  assumes "distinct (map f table)" "k < length table" "mset order = mset [0..<length table]"
  shows "length (filter (\<lambda>i. f (table ! i) = f (table ! k)) order) = 1"
proof -
  let ?g = "\<lambda>i. f (table ! i)"
  have d: "distinct (map ?g [0..<length table])"
    using assms(1) by (simp only: map_nth_table)
  have "k \<in> set [0..<length table]" using assms(2) by simp
  from distinct_filter_eq_one [of ?g, OF d this]
  have "length (filter (\<lambda>i. ?g i = ?g k) [0..<length table]) = 1" .
  with length_filter_mset_eq [OF assms(3)] show ?thesis by simp
qed

lemma snd_enumerate_set: "x \<in> set (enumerate n xs) \<Longrightarrow> snd x \<in> set xs"
  by (metis in_set_zipE enumerate_eq_zip prod.collapse)

lemma map_fst_enumerate_upt: "map (\<lambda>x. h (fst x)) (enumerate 0 xs) = map h [0..<length xs]"
proof -
  have "map (\<lambda>x. h (fst x)) (enumerate 0 xs) = map h (map fst (enumerate 0 xs))"
    by (simp only: map_map comp_def)
  then show ?thesis by simp
qed

lemma buildItemsForColorOnlyTrial_result:
  assumes "buildItemsForColorOnlyTrial seed = Inr its"
  shows "length its = 8"
    and "k < 8 \<Longrightarrow> length (filter (\<lambda>it. colorName it = fst (COLORS ! k)) its) = 1"
    and "map item_id its = map (\<lambda>i. ''item_'' @ decimal (i + 1)) [0..<8]"
proof -
  let ?f = "\<lambda>(index, colorIndex).
             and_then (defined (js_index COLORS colorIndex)) (\<lambda>color.
             Inr \<lparr>item_id = ''item_'' @ decimal (index + 1),
                  colorName = fst color,
                  colorHex = snd color,
                  shapeName = ''circle'',
                  shapeSymbol = ''U+25CF''\<rparr>)"
  let ?g = "\<lambda>index colorIndex.
             \<lparr>item_id = ''item_'' @ decimal (index + 1),
              colorName = fst (COLORS ! colorIndex),
              colorHex = snd (COLORS ! colorIndex),
              shapeName = ''circle'',
              shapeSymbol = ''U+25CF''\<rparr>"
  from assms obtain order rand1 where
    sh: "shuffle [0..<length COLORS] (seededRandom seed) = Inr (order, rand1)" and
    tr: "traverse ?f (enumerate 0 order) = Inr its"
    by (auto simp: buildItemsForColorOnlyTrial_def Let_def and_then_eq_Inr)
  from shuffle_result [OF sh] have m: "mset order = mset [0..<length COLORS]"
    and l: "length order = 8" by (simp_all add: length_COLORS)
  have so: "set order = {0..<length COLORS}" using mset_eq_setD [OF m] by simp
  have "traverse ?f (enumerate 0 order) = Inr (map (\<lambda>(i, c). ?g i c) (enumerate 0 order))"
  proof (rule traverse_map)
    fix x assume "x \<in> set (enumerate 0 order)"
    then have "snd x < length COLORS" using snd_enumerate_set [of x 0 order] so by simp
    then show "?f x = Inr ((\<lambda>(i, c). ?g i c) x)"
      by (cases x) (simp add: defined_js_index)
  qed
  with tr have its: "its = map (\<lambda>(i, c). ?g i c) (enumerate 0 order)" by simp
  show "length its = 8" using its l by simp
  show "k < 8 \<Longrightarrow> length (filter (\<lambda>it. colorName it = fst (COLORS ! k)) its) = 1"
  proof -
    assume k: "k < 8"
    have "length (filter (\<lambda>it. colorName it = fst (COLORS ! k)) its)
            = length (filter (\<lambda>c. fst (COLORS ! c) = fst (COLORS ! k)) order)"
      unfolding its by (rule filter_map_enumerate) simp
    also have "\<dots> = 1"
      using one_index_per_name [OF distinct_COLORS _ m, of k] k by (simp add: length_COLORS)
    finally show ?thesis .
  qed
  have "map item_id its = map (\<lambda>x. ''item_'' @ decimal (fst x + 1)) (enumerate 0 order)"
    unfolding its by (simp add: case_prod_unfold comp_def)
  then show "map item_id its = map (\<lambda>i. ''item_'' @ decimal (i + 1)) [0..<8]"
    using map_fst_enumerate_upt [of "\<lambda>i. ''item_'' @ decimal (i + 1)" order] l by simp
qed

lemma buildItemsForColorOnlyTrial_succeeds:
  assumes "0 \<le> seed"
  shows "\<exists>its. buildItemsForColorOnlyTrial seed = Inr its"
proof -
  have "\<forall>x\<in>sset (seededRandom seed). 0 \<le> x \<and> x < 1"
    using seededRandom_range [OF assms] by blast
  from shuffle_succeeds [OF this] obtain order rand1 where
    sh: "shuffle [0..<length COLORS] (seededRandom seed) = Inr (order, rand1)" by blast
  from shuffle_result [OF sh] have m: "mset order = mset [0..<length COLORS]" by simp
  have so: "set order = {0..<length COLORS}" using mset_eq_setD [OF m] by simp
  let ?f = "\<lambda>(index, colorIndex).
             and_then (defined (js_index COLORS colorIndex)) (\<lambda>color.
             Inr \<lparr>item_id = ''item_'' @ decimal (index + 1),
                  colorName = fst color,
                  colorHex = snd color,
                  shapeName = ''circle'',
                  shapeSymbol = ''U+25CF''\<rparr>)"
  have "\<exists>its. traverse ?f (enumerate 0 order) = Inr its"
  proof (rule traverse_succeeds)
    fix x assume "x \<in> set (enumerate 0 order)"
    then have "snd x < length COLORS" using snd_enumerate_set [of x 0 order] so by simp
    then show "\<exists>y. ?f x = Inr y"
      by (cases x) (simp add: defined_js_index)
  qed
  with sh show ?thesis by (simp add: buildItemsForColorOnlyTrial_def Let_def)
qed

lemma buildItemsForColorOnlyTrial_error:
  assumes "buildItemsForColorOnlyTrial seed = Inl e"
  shows "e = TypeError \<or> e = UndefinedElement"
proof -
  let ?f = "\<lambda>(index, colorIndex).
             and_then (defined (js_index COLORS colorIndex)) (\<lambda>color.
             Inr \<lparr>item_id = ''item_'' @ decimal (index + 1),
                  colorName = fst color,
                  colorHex = snd color,
                  shapeName = ''circle'',
                  shapeSymbol = ''U+25CF''\<rparr>)"
  from assms consider
      "shuffle [0..<length COLORS] (seededRandom seed) = Inl e"
    | order where "traverse ?f (enumerate 0 order) = Inl e"
    by (auto simp: buildItemsForColorOnlyTrial_def Let_def and_then_eq_Inl)
  then show ?thesis
  proof cases
    case 1
    then show ?thesis by (rule shuffle_error)
  next
    case 2
    from traverse_Inl [OF this] obtain x where "?f x = Inl e" by blast
    then show ?thesis
      by (cases x) (auto simp: and_then_eq_Inl dest: defined_js_index_Inl)
  qed
qed

lemma buildItemsForShapeOnlyTrial_result:
  assumes "buildItemsForShapeOnlyTrial seed = Inr its"
  shows "length its = 8"
    and "k < 8 \<Longrightarrow> length (filter (\<lambda>it. shapeName it = fst (SHAPES ! k)) its) = 1"
    and "map item_id its = map (\<lambda>i. ''item_'' @ decimal (i + 1)) [0..<8]"
proof -
  let ?f = "\<lambda>(index, shapeIndex).
             and_then (defined (js_index SHAPES shapeIndex)) (\<lambda>shape.
             Inr \<lparr>item_id = ''item_'' @ decimal (index + 1),
                  colorName = ''black'',
                  colorHex = ''#111111'',
                  shapeName = fst shape,
                  shapeSymbol = snd shape\<rparr>)"
  let ?g = "\<lambda>index shapeIndex.
             \<lparr>item_id = ''item_'' @ decimal (index + 1),
              colorName = ''black'',
              colorHex = ''#111111'',
              shapeName = fst (SHAPES ! shapeIndex),
              shapeSymbol = snd (SHAPES ! shapeIndex)\<rparr>"
  from assms obtain order rand1 where
    sh: "shuffle [0..<length SHAPES] (seededRandom seed) = Inr (order, rand1)" and
    tr: "traverse ?f (enumerate 0 order) = Inr its"
    by (auto simp: buildItemsForShapeOnlyTrial_def Let_def and_then_eq_Inr)
  from shuffle_result [OF sh] have m: "mset order = mset [0..<length SHAPES]"
    and l: "length order = 8" by (simp_all add: length_SHAPES)
  have so: "set order = {0..<length SHAPES}" using mset_eq_setD [OF m] by simp
  have "traverse ?f (enumerate 0 order) = Inr (map (\<lambda>(i, c). ?g i c) (enumerate 0 order))"
  proof (rule traverse_map)
    fix x assume "x \<in> set (enumerate 0 order)"
    then have "snd x < length SHAPES" using snd_enumerate_set [of x 0 order] so by simp
    then show "?f x = Inr ((\<lambda>(i, c). ?g i c) x)"
      by (cases x) (simp add: defined_js_index)
  qed
  with tr have its: "its = map (\<lambda>(i, c). ?g i c) (enumerate 0 order)" by simp
  show "length its = 8" using its l by simp
  show "k < 8 \<Longrightarrow> length (filter (\<lambda>it. shapeName it = fst (SHAPES ! k)) its) = 1"
  proof -
    assume k: "k < 8"
    have "length (filter (\<lambda>it. shapeName it = fst (SHAPES ! k)) its)
            = length (filter (\<lambda>c. fst (SHAPES ! c) = fst (SHAPES ! k)) order)"
      unfolding its by (rule filter_map_enumerate) simp
    also have "\<dots> = 1"
      using one_index_per_name [OF distinct_SHAPES _ m, of k] k by (simp add: length_SHAPES)
    finally show ?thesis .
  qed
  have "map item_id its = map (\<lambda>x. ''item_'' @ decimal (fst x + 1)) (enumerate 0 order)"
    unfolding its by (simp add: case_prod_unfold comp_def)
  then show "map item_id its = map (\<lambda>i. ''item_'' @ decimal (i + 1)) [0..<8]"
    using map_fst_enumerate_upt [of "\<lambda>i. ''item_'' @ decimal (i + 1)" order] l by simp
qed

lemma buildItemsForShapeOnlyTrial_succeeds:
  assumes "0 \<le> seed"
  shows "\<exists>its. buildItemsForShapeOnlyTrial seed = Inr its"
proof -
  have "\<forall>x\<in>sset (seededRandom seed). 0 \<le> x \<and> x < 1"
    using seededRandom_range [OF assms] by blast
  from shuffle_succeeds [OF this] obtain order rand1 where
    sh: "shuffle [0..<length SHAPES] (seededRandom seed) = Inr (order, rand1)" by blast
  from shuffle_result [OF sh] have m: "mset order = mset [0..<length SHAPES]" by simp
  have so: "set order = {0..<length SHAPES}" using mset_eq_setD [OF m] by simp
  let ?f = "\<lambda>(index, shapeIndex).
             and_then (defined (js_index SHAPES shapeIndex)) (\<lambda>shape.
             Inr \<lparr>item_id = ''item_'' @ decimal (index + 1),
                  colorName = ''black'',
                  colorHex = ''#111111'',
                  shapeName = fst shape,
                  shapeSymbol = snd shape\<rparr>)"
  have "\<exists>its. traverse ?f (enumerate 0 order) = Inr its"
  proof (rule traverse_succeeds)
    fix x assume "x \<in> set (enumerate 0 order)"
    then have "snd x < length SHAPES" using snd_enumerate_set [of x 0 order] so by simp
    then show "\<exists>y. ?f x = Inr y"
      by (cases x) (simp add: defined_js_index)
  qed
  with sh show ?thesis by (simp add: buildItemsForShapeOnlyTrial_def Let_def)
qed

lemma buildItemsForShapeOnlyTrial_error:
  assumes "buildItemsForShapeOnlyTrial seed = Inl e"
  shows "e = TypeError \<or> e = UndefinedElement"
proof -
  let ?f = "\<lambda>(index, shapeIndex).
             and_then (defined (js_index SHAPES shapeIndex)) (\<lambda>shape.
             Inr \<lparr>item_id = ''item_'' @ decimal (index + 1),
                  colorName = ''black'',
                  colorHex = ''#111111'',
                  shapeName = fst shape,
                  shapeSymbol = snd shape\<rparr>)"
  from assms consider
      "shuffle [0..<length SHAPES] (seededRandom seed) = Inl e"
    | order where "traverse ?f (enumerate 0 order) = Inl e"
    by (auto simp: buildItemsForShapeOnlyTrial_def Let_def and_then_eq_Inl)
  then show ?thesis
  proof cases
    case 1
    then show ?thesis by (rule shuffle_error)
  next
    case 2
    from traverse_Inl [OF this] obtain x where "?f x = Inl e" by blast
    then show ?thesis
      by (cases x) (auto simp: and_then_eq_Inl dest: defined_js_index_Inl)
  qed
qed

lemma shuffle_rest: "shuffle xs rand = Inr (ys, rand') \<Longrightarrow> \<exists>n. rand' = sdrop n rand"
  using shuffle_result by blast

lemma buildCombinedItemsForTarget_result:
  assumes "buildCombinedItemsForTarget seed tc ts = Inr its"
  shows "length its = 8"
    and "length (filter (\<lambda>it. colorName it = tc \<and> shapeName it = ts) its) = 1"
    and "map item_id its = map (\<lambda>i. ''item_'' @ decimal (i + 1)) [0..<8]"
proof -
  let ?target = "((tc, case find (\<lambda>color. fst color = tc) COLORS of
                         Some color \<Rightarrow> snd color | None \<Rightarrow> ''#000000''),
                  (ts, case find (\<lambda>shape. fst shape = ts) SHAPES of
                         Some shape \<Rightarrow> snd shape | None \<Rightarrow> ''U+25A0''))"
  let ?g = "\<lambda>index pair.
              \<lparr>item_id = ''item_'' @ decimal (index + 1),
               colorName = fst (fst pair),
               colorHex = snd (fst pair),
               shapeName = fst (snd pair),
               shapeSymbol = snd (snd pair)\<rparr>"
  from assms obtain rc rand1 rs rand2 rest ops rand3 where
    rc: "shuffle (filter (\<lambda>color. fst color \<noteq> tc) COLORS) (seededRandom seed) = Inr (rc, rand1)" and
    rs: "shuffle (filter (\<lambda>shape. fst shape \<noteq> ts) SHAPES) rand1 = Inr (rs, rand2)" and
    tr: "traverse (\<lambda>i. and_then (defined (js_index rc i)) (\<lambda>color.
                        and_then (defined (js_index rs i)) (\<lambda>shape. Inr (color, shape))))
           [0..<7] = Inr rest" and
    ops: "shuffle (?target # rest) rand2 = Inr (ops, rand3)" and
    its: "its = map (\<lambda>(i, p). ?g i p) (enumerate 0 ops)"
    by (auto simp: buildCombinedItemsForTarget_def Let_def and_then_eq_Inr)
  from traverse_nth [OF tr] have lr: "length rest = 7"
    and nth: "\<And>i. i < 7 \<Longrightarrow>
      and_then (defined (js_index rc i)) (\<lambda>color.
        and_then (defined (js_index rs i)) (\<lambda>shape. Inr (color, shape))) = Inr (rest ! i)"
    by simp_all
  from shuffle_result [OF rc] have src: "set rc = set (filter (\<lambda>color. fst color \<noteq> tc) COLORS)"
    by (metis mset_eq_setD)
  have no: "\<forall>p\<in>set rest. fst (fst p) \<noteq> tc"
  proof
    fix p assume "p \<in> set rest"
    then obtain i where i: "i < 7" "p = rest ! i" using lr by (metis in_set_conv_nth)
    from nth [OF i(1)]
    have "\<exists>color shape. defined (js_index rc i) = Inr color \<and> (color, shape) = rest ! i"
      by (auto simp: and_then_eq_Inr)
    then obtain color shape where
      c: "defined (js_index rc i) = Inr color" and e: "(color, shape) = rest ! i" by blast
    from e i(2) have "fst p = color" by (metis fst_conv)
    with c have "fst p \<in> set rc" by (auto dest: defined_js_index_Inr)
    then show "fst (fst p) \<noteq> tc" using src by simp
  qed
  from shuffle_result [OF ops] have mo: "mset ops = mset (?target # rest)"
    and lo: "length ops = 8" using lr by simp_all
  show "length its = 8" using its lo by simp
  let ?Q = "\<lambda>p. fst (fst p) = tc \<and> fst (snd p) = ts"
  have "length (filter (\<lambda>it. colorName it = tc \<and> shapeName it = ts) its) = length (filter ?Q ops)"
    unfolding its by (rule filter_map_enumerate) simp
  also have "\<dots> = length (filter ?Q (?target # rest))"
    by (rule length_filter_mset_eq [OF mo])
  also have "\<dots> = 1 + length (filter ?Q rest)" by simp
  also have "filter ?Q rest = []" using no by (simp add: filter_empty_conv)
  finally show "length (filter (\<lambda>it. colorName it = tc \<and> shapeName it = ts) its) = 1" by simp
  have "map item_id its = map (\<lambda>x. ''item_'' @ decimal (fst x + 1)) (enumerate 0 ops)"
    unfolding its by (simp add: case_prod_unfold comp_def)
  then show "map item_id its = map (\<lambda>i. ''item_'' @ decimal (i + 1)) [0..<8]"
    using map_fst_enumerate_upt [of "\<lambda>i. ''item_'' @ decimal (i + 1)" ops] lo by simp
qed

lemma buildCombinedItemsForTarget_succeeds:
  assumes "0 \<le> seed"
  shows "\<exists>its. buildCombinedItemsForTarget seed tc ts = Inr its"
proof -
  let ?rand = "seededRandom seed"
  have r0: "\<forall>x\<in>sset ?rand. 0 \<le> x \<and> x < 1"
    using seededRandom_range [OF assms] by blast
  let ?cs = "filter (\<lambda>color. fst color \<noteq> tc) COLORS"
  let ?ss = "filter (\<lambda>shape. fst shape \<noteq> ts) SHAPES"
  from shuffle_succeeds [OF r0] obtain rc where
    rc: "shuffle ?cs ?rand = Inr (rc, sdrop (length ?cs - 1) ?rand)" by blast
  let ?rand1 = "sdrop (length ?cs - 1) ?rand"
  have r1: "\<forall>x\<in>sset ?rand1. 0 \<le> x \<and> x < 1" by (rule sset_sdrop_range [OF r0])
  from shuffle_succeeds [OF r1] obtain rs where
    rs: "shuffle ?ss ?rand1 = Inr (rs, sdrop (length ?ss - 1) ?rand1)" by blast
  let ?rand2 = "sdrop (length ?ss - 1) ?rand1"
  have r2: "\<forall>x\<in>sset ?rand2. 0 \<le> x \<and> x < 1" by (rule sset_sdrop_range [OF r1])
  have lrc: "7 \<le> length rc"
    using shuffle_result [OF rc] distinct_filter_neq [OF distinct_COLORS, of tc]
    by (simp add: length_COLORS)
  have lrs: "7 \<le> length rs"
    using shuffle_result [OF rs] distinct_filter_neq [OF distinct_SHAPES, of ts]
    by (simp add: length_SHAPES)
  let ?f = "\<lambda>i. and_then (defined (js_index rc i)) (\<lambda>color.
                and_then (defined (js_index rs i)) (\<lambda>shape. Inr (color, shape)))"
  have "\<exists>rest. traverse ?f [0..<7] = Inr rest"
  proof (rule traverse_succeeds)
    fix i :: nat assume "i \<in> set [0..<7]"
    then have "i < length rc" "i < length rs" using lrc lrs by simp_all
    then show "\<exists>y. ?f i = Inr y" by (simp add: defined_js_index)
  qed
  then obtain rest where rest: "traverse ?f [0..<7] = Inr rest" by blast
  let ?target = "((tc, case find (\<lambda>color. fst color = tc) COLORS of
                         Some color \<Rightarrow> snd color | None \<Rightarrow> ''#000000''),
                  (ts, case find (\<lambda>shape. fst shape = ts) SHAPES of
                         Some shape \<Rightarrow> snd shape | None \<Rightarrow> ''U+25A0''))"
  from shuffle_succeeds [OF r2] obtain ops rand3 where
    ops: "shuffle (?target # rest) ?rand2 = Inr (ops, rand3)" by blast
  show ?thesis
    using rc rs rest ops by (simp add: buildCombinedItemsForTarget_def Let_def)
qed

lemma buildCombinedItemsForTarget_error:
  assumes "buildCombinedItemsForTarget seed tc ts = Inl e"
  shows "e = TypeError \<or> e = UndefinedElement"
proof -
  from assms consider
      xs rand where "shuffle (xs :: (string \<times> string) list) rand = Inl e"
    | ps rand where "shuffle (ps :: ((string \<times> string) \<times> (string \<times> string)) list) rand = Inl e"
    | rc rs where "traverse (\<lambda>i. and_then (defined (js_index (rc :: (string \<times> string) list) i)) (\<lambda>color.
                        and_then (defined (js_index (rs :: (string \<times> string) list) i)) (\<lambda>shape. Inr (color, shape))))
           [0..<7] = Inl e"
    by (auto simp: buildCombinedItemsForTarget_def Let_def and_then_eq_Inl)
  then show ?thesis
  proof cases
    case 1
    then show ?thesis by (rule shuffle_error)
  next
    case 2
    then show ?thesis by (rule shuffle_error)
  next
    case 3
    from traverse_Inl [OF this] show ?thesis
      by (auto simp: and_then_eq_Inl dest: defined_js_index_Inl)
  qed
qed

section \<open>Properties of the block planner\<close>

lemma buildBalancedIndices_shape:
  assumes "0 < len" "buildBalancedIndices len cnt rand = Inr (xs, rand')"
  shows "length xs = nat cnt" and "\<forall>x\<in>set xs. x < nat len"
proof -
  have "length xs = nat cnt \<and> (\<forall>x\<in>set xs. x < nat len)"
  proof (cases "0 < cnt")
    case False
    with assms(2) show ?thesis by (simp add: buildBalancedIndices_def)
  next
    case True
    from buildBalancedIndices_result [OF assms(1) True assms(2)] obtain extra where
      m: "mset xs = mset (baseIndices (nat len) (nat (cnt div len))) + mset extra" and
      d: "distinct extra" and s: "set extra \<subseteq> {0..<nat len}" and
      l: "length extra = nat (cnt mod len)" by (elim exE conjE)
    note bc = balanced_counts [OF m d s]
    have "length xs = nat cnt"
      using bc(3) l div_mod_nat [OF assms(1) True] by linarith
    moreover have "\<forall>x\<in>set xs. x < nat len"
    proof
      fix x assume "x \<in> set xs"
      then have "count_list xs x \<noteq> 0" by (simp add: count_list_0_iff)
      then show "x < nat len" using bc(2) [of x] by (cases "x < nat len") simp_all
    qed
    ultimately show ?thesis by simp
  qed
  then show "length xs = nat cnt" and "\<forall>x\<in>set xs. x < nat len" by simp_all
qed

lemma buildBalancedIndices_error:
  assumes "buildBalancedIndices len cnt rand = Inl e"
  shows "e = TypeError \<or> e = UndefinedElement"
proof -
  from assms have pos: "0 < len" "0 < cnt"
    by (auto simp: buildBalancedIndices_def split: if_splits)
  from assms buildBalancedIndices_unfold [OF pos, of rand]
  obtain ys rand1 where "shuffle (ys :: nat list) rand1 = Inl e"
    by (auto split: if_splits sum.splits)
  then show ?thesis by (rule shuffle_error)
qed

lemma matchesTarget_simps:
  "matchesTarget Color tc ts = (\<lambda>it. colorName it = tc)"
  "matchesTarget Shape tc ts = (\<lambda>it. shapeName it = ts)"
  "matchesTarget Combined tc ts = (\<lambda>it. colorName it = tc \<and> shapeName it = ts)"
  by (rule ext, simp add: matchesTarget_def)+

lemma findItemForTarget_unique:
  assumes "length (filter (matchesTarget c tc ts) its) = 1"
  shows "\<exists>x. filter (matchesTarget c tc ts) its = [x] \<and> findItemForTarget its tc ts c = Inr x"
proof -
  from length_filter_one [OF assms] obtain x where
    x: "filter (matchesTarget c tc ts) its = [x]" by blast
  from filter_single_find [OF x] have "find (matchesTarget c tc ts) its = Some x" .
  then have "findItemForTarget its tc ts c = Inr x"
    by (cases c) (simp_all add: findItemForTarget_def matchesTarget_simps)
  with x show ?thesis by blast
qed

lemma items_match_once:
  assumes tc: "(if c = Shape then Inr ''black''
                else and_then (entry_at COLORS bci t) (\<lambda>color. Inr (fst color))) = Inr tc"
      and ts: "(if c = Color then Inr ''circle''
                else and_then (entry_at SHAPES bsi t) (\<lambda>shape. Inr (fst shape))) = Inr ts"
      and its: "(if c = Color then buildItemsForColorOnlyTrial seed
                 else if c = Shape then buildItemsForShapeOnlyTrial seed
                 else buildCombinedItemsForTarget seed tc ts) = Inr its"
  shows "length (filter (matchesTarget c tc ts) its) = 1"
    and "length its = 8"
    and "map item_id its = map (\<lambda>i. ''item_'' @ decimal (i + 1)) [0..<8]"
proof -
  have "length (filter (matchesTarget c tc ts) its) = 1 \<and> length its = 8 \<and>
        map item_id its = map (\<lambda>i. ''item_'' @ decimal (i + 1)) [0..<8]"
  proof (cases c)
    case Color
    with tc obtain color where "entry_at COLORS bci t = Inr color" "tc = fst color"
      by (auto simp: and_then_eq_Inr)
    then have k: "bci ! t < 8" "tc = fst (COLORS ! (bci ! t))"
      by (auto dest: entry_at_Inr simp: length_COLORS)
    from its Color have "buildItemsForColorOnlyTrial seed = Inr its" by simp
    note r = buildItemsForColorOnlyTrial_result [OF this]
    from r(1) r(2) [of "bci ! t"] r(3) k Color
    show ?thesis by (simp add: matchesTarget_simps)
  next
    case Shape
    with ts obtain shape where "entry_at SHAPES bsi t = Inr shape" "ts = fst shape"
      by (auto simp: and_then_eq_Inr)
    then have k: "bsi ! t < 8" "ts = fst (SHAPES ! (bsi ! t))"
      by (auto dest: entry_at_Inr simp: length_SHAPES)
    from its Shape have "buildItemsForShapeOnlyTrial seed = Inr its" by simp
    note r = buildItemsForShapeOnlyTrial_result [OF this]
    from r(1) r(2) [of "bsi ! t"] r(3) k Shape
    show ?thesis by (simp add: matchesTarget_simps)
  next
    case Combined
    with its have "buildCombinedItemsForTarget seed tc ts = Inr its" by simp
    from buildCombinedItemsForTarget_result [OF this] Combined
    show ?thesis by (simp add: matchesTarget_simps)
  qed
  then show "length (filter (matchesTarget c tc ts) its) = 1"
    and "length its = 8"
    and "map item_id its = map (\<lambda>i. ''item_'' @ decimal (i + 1)) [0..<8]" by simp_all
qed

lemma buildTrial_result:
  assumes "buildTrial args p bci bsi t = Inr trial"
  shows "isPractice trial = (int t < p)"
    and "trial_condition trial = arg_condition args"
    and "arg_condition args \<noteq> Shape \<Longrightarrow>
           t < length bci \<and> bci ! t < 8 \<and> trial_targetColor trial = fst (COLORS ! (bci ! t))"
    and "arg_condition args = Shape \<Longrightarrow> trial_targetColor trial = ''black''"
    and "arg_condition args \<noteq> Color \<Longrightarrow>
           t < length bsi \<and> bsi ! t < 8 \<and> trial_targetShape trial = fst (SHAPES ! (bsi ! t))"
    and "arg_condition args = Color \<Longrightarrow> trial_targetShape trial = ''circle''"
    and "length (trial_items trial) = 8"
    and "map item_id (trial_items trial) = map (\<lambda>i. ''item_'' @ decimal (i + 1)) [0..<8]"
    and "\<exists>item. filter (matchesTarget (trial_condition trial) (trial_targetColor trial)
                        (trial_targetShape trial)) (trial_items trial) = [item] \<and>
                correctItemId trial = item_id item"
    and "trialIndexInBlock trial = int t + 1"
proof -
  let ?c = "arg_condition args"
  let ?seed = "arg_participantNumber args * 100000 + arg_blockIndex args * 1000 + int t + 1"
  from assms obtain tc ts its correctItem where
    tc: "(if ?c = Shape then Inr ''black''
          else and_then (entry_at COLORS bci t) (\<lambda>color. Inr (fst color))) = Inr tc" and
    ts: "(if ?c = Color then Inr ''circle''
          else and_then (entry_at SHAPES bsi t) (\<lambda>shape. Inr (fst shape))) = Inr ts" and
    its: "(if ?c = Color then buildItemsForColorOnlyTrial ?seed
           else if ?c = Shape then buildItemsForShapeOnlyTrial ?seed
           else buildCombinedItemsForTarget ?seed tc ts) = Inr its" and
    ci: "findItemForTarget its tc ts ?c = Inr correctItem" and
    f: "isPractice trial = (int t < p)" "trial_condition trial = ?c"
       "trial_targetColor trial = tc" "trial_targetShape trial = ts"
       "trial_items trial = its" "correctItemId trial = item_id correctItem"
       "trialIndexInBlock trial = int t + 1"
    unfolding buildTrial_def Let_def and_then_eq_Inr by force
  note m = items_match_once [OF tc ts its]
  show "trialIndexInBlock trial = int t + 1" by (rule f(7))
  show "isPractice trial = (int t < p)" by (rule f(1))
  show "trial_condition trial = ?c" by (rule f(2))
  show "?c \<noteq> Shape \<Longrightarrow>
           t < length bci \<and> bci ! t < 8 \<and> trial_targetColor trial = fst (COLORS ! (bci ! t))"
    using tc f(3) by (auto simp: and_then_eq_Inr length_COLORS dest!: entry_at_Inr)
  show "?c = Shape \<Longrightarrow> trial_targetColor trial = ''black''" using tc f(3) by simp
  show "?c \<noteq> Color \<Longrightarrow>
           t < length bsi \<and> bsi ! t < 8 \<and> trial_targetShape trial = fst (SHAPES ! (bsi ! t))"
    using ts f(4) by (auto simp: and_then_eq_Inr length_SHAPES dest!: entry_at_Inr)
  show "?c = Color \<Longrightarrow> trial_targetShape trial = ''circle''" using ts f(4) by simp
  show "length (trial_items trial) = 8" using m(2) f(5) by simp
  show "map item_id (trial_items trial) = map (\<lambda>i. ''item_'' @ decimal (i + 1)) [0..<8]"
    using m(3) f(5) by simp
  from findItemForTarget_unique [OF m(1)] ci obtain x where
    "filter (matchesTarget ?c tc ts) its = [x]" "correctItem = x" by auto
  then show "\<exists>item. filter (matchesTarget (trial_condition trial) (trial_targetColor trial)
                        (trial_targetShape trial)) (trial_items trial) = [item] \<and>
                correctItemId trial = item_id item"
    using f by simp
qed

lemma buildTrial_succeeds:
  assumes "0 \<le> arg_participantNumber args" "0 \<le> arg_blockIndex args"
    and "arg_condition args \<noteq> Shape \<Longrightarrow> t < length bci \<and> bci ! t < 8"
    and "arg_condition args \<noteq> Color \<Longrightarrow> t < length bsi \<and> bsi ! t < 8"
  shows "\<exists>trial. buildTrial args p bci bsi t = Inr trial"
proof -
  let ?c = "arg_condition args"
  let ?seed = "arg_participantNumber args * 100000 + arg_blockIndex args * 1000 + int t + 1"
  have seed: "0 \<le> ?seed" using assms(1,2) by simp
  obtain tc where
    tc: "(if ?c = Shape then Inr ''black''
          else and_then (entry_at COLORS bci t) (\<lambda>color. Inr (fst color))) = Inr tc"
    using assms(3) by (cases "?c = Shape") (simp_all add: entry_at_succeeds length_COLORS)
  obtain ts where
    ts: "(if ?c = Color then Inr ''circle''
          else and_then (entry_at SHAPES bsi t) (\<lambda>shape. Inr (fst shape))) = Inr ts"
    using assms(4) by (cases "?c = Color") (simp_all add: entry_at_succeeds length_SHAPES)
  obtain its where
    its: "(if ?c = Color then buildItemsForColorOnlyTrial ?seed
           else if ?c = Shape then buildItemsForShapeOnlyTrial ?seed
           else buildCombinedItemsForTarget ?seed tc ts) = Inr its"
    using buildItemsForColorOnlyTrial_succeeds [OF seed]
      buildItemsForShapeOnlyTrial_succeeds [OF seed]
      buildCombinedItemsForTarget_succeeds [OF seed, of tc ts]
    by (cases ?c) auto
  from findItemForTarget_unique [OF items_match_once(1) [OF tc ts its]] obtain x where
    "findItemForTarget its tc ts ?c = Inr x" by blast
  with tc ts its show ?thesis by (simp add: buildTrial_def Let_def)
qed

lemma buildTrial_error:
  assumes "buildTrial args p bci bsi t = Inl e"
  shows "e = TypeError \<or> e = UndefinedElement"
proof -
  let ?c = "arg_condition args"
  let ?seed = "arg_participantNumber args * 100000 + arg_blockIndex args * 1000 + int t + 1"
  let ?A = "if ?c = Shape then Inr ''black''
            else and_then (entry_at COLORS bci t) (\<lambda>color. Inr (fst color))"
  let ?B = "if ?c = Color then Inr ''circle''
            else and_then (entry_at SHAPES bsi t) (\<lambda>shape. Inr (fst shape))"
  let ?C = "\<lambda>tc ts. if ?c = Color then buildItemsForColorOnlyTrial ?seed
           else if ?c = Shape then buildItemsForShapeOnlyTrial ?seed
           else buildCombinedItemsForTarget ?seed tc ts"
  show ?thesis
  proof (cases ?A)
    case (Inl a)
    with assms have "e = a" by (simp add: buildTrial_def Let_def)
    moreover from Inl have "a = TypeError"
      by (auto simp: and_then_eq_Inl dest: entry_at_Inl split: if_splits)
    ultimately show ?thesis by simp
  next
    case tc: (Inr tc)
    show ?thesis
    proof (cases ?B)
      case (Inl b)
      with assms tc have "e = b" by (simp add: buildTrial_def Let_def)
      moreover from Inl have "b = TypeError"
        by (auto simp: and_then_eq_Inl dest: entry_at_Inl split: if_splits)
      ultimately show ?thesis by simp
    next
      case ts: (Inr ts)
      show ?thesis
      proof (cases "?C tc ts")
        case (Inl d)
        with assms tc ts have "e = d" by (simp add: buildTrial_def Let_def)
        moreover from Inl have "d = TypeError \<or> d = UndefinedElement"
          by (auto dest: buildItemsForColorOnlyTrial_error buildItemsForShapeOnlyTrial_error
                buildCombinedItemsForTarget_error split: if_splits)
        ultimately show ?thesis by simp
      next
        case its: (Inr its)
        from findItemForTarget_unique [OF items_match_once(1) [OF tc ts its]] obtain x where
          "findItemForTarget its tc ts ?c = Inr x" by blast
        with assms tc ts its show ?thesis by (simp add: buildTrial_def Let_def)
      qed
    qed
  qed
qed

lemma generateBlockPlan_Inr:
  assumes "generateBlockPlan args = Inr plan"
  obtains pci rand1 psi rand2 mci rand3 msi rand4 where
    "buildBalancedIndices 8 (practiceTrialsOf args)
       (seededRandom (arg_participantNumber args * 1000 + arg_blockIndex args * 77
                      + arg_blockOrder args * 19)) = Inr (pci, rand1)"
    "buildBalancedIndices 8 (practiceTrialsOf args) rand1 = Inr (psi, rand2)"
    "buildBalancedIndices 8 (measuredTrialsOf args) rand2 = Inr (mci, rand3)"
    "buildBalancedIndices 8 (measuredTrialsOf args) rand3 = Inr (msi, rand4)"
    "traverse (buildTrial args (practiceTrialsOf args) (pci @ mci) (psi @ msi))
       [0..<nat (practiceTrialsOf args + measuredTrialsOf args)] = Inr (plan_trials plan)"
    "plan_blockIndex plan = arg_blockIndex args"
    "plan_blockOrder plan = arg_blockOrder args"
    "plan_condition plan = arg_condition args"
    "plan_practiceTrials plan = length (filter (\<lambda>trial. isPractice trial) (plan_trials plan))"
    "plan_measuredTrials plan = length (filter (\<lambda>trial. \<not> isPractice trial) (plan_trials plan))"
  using assms
  by (auto simp: generateBlockPlan_def Let_def and_then_eq_Inr length_COLORS length_SHAPES)

lemma generateBlockPlan_error:
  assumes "generateBlockPlan args = Inl e"
  shows "e = TypeError \<or> e = UndefinedElement"
proof -
  from assms consider
      len cnt rand where "buildBalancedIndices len cnt rand = Inl e"
    | p bci bsi ts where "traverse (buildTrial args p bci bsi) ts = Inl e"
    by (auto simp: generateBlockPlan_def Let_def and_then_eq_Inl)
  then show ?thesis
  proof cases
    case 1
    then show ?thesis by (rule buildBalancedIndices_error)
  next
    case 2
    from traverse_Inl [OF this] show ?thesis by (auto dest: buildTrial_error)
  qed
qed

lemma generateBlockPlan_succeeds:
  assumes "0 \<le> arg_participantNumber args" "0 \<le> arg_blockIndex args" "0 \<le> arg_blockOrder args"
  shows "\<exists>plan. generateBlockPlan args = Inr plan"
proof -
  let ?p = "practiceTrialsOf args" and ?m = "measuredTrialsOf args"
  let ?rand = "seededRandom (arg_participantNumber args * 1000 + arg_blockIndex args * 77
                      + arg_blockOrder args * 19)"
  have "0 \<le> arg_participantNumber args * 1000 + arg_blockIndex args * 77
                      + arg_blockOrder args * 19" using assms by simp
  then have r0: "\<forall>x\<in>sset ?rand. 0 \<le> x \<and> x < 1" using seededRandom_range by blast
  from buildBalancedIndices_succeeds [OF r0] obtain pci n1 where
    pci: "buildBalancedIndices 8 ?p ?rand = Inr (pci, sdrop n1 ?rand)" by blast
  have r1: "\<forall>x\<in>sset (sdrop n1 ?rand). 0 \<le> x \<and> x < 1" by (rule sset_sdrop_range [OF r0])
  from buildBalancedIndices_succeeds [OF r1] obtain psi n2 where
    psi: "buildBalancedIndices 8 ?p (sdrop n1 ?rand) = Inr (psi, sdrop n2 (sdrop n1 ?rand))"
    by blast
  have r2: "\<forall>x\<in>sset (sdrop n2 (sdrop n1 ?rand)). 0 \<le> x \<and> x < 1"
    by (rule sset_sdrop_range [OF r1])
  from buildBalancedIndices_succeeds [OF r2] obtain mci rand3 where
    mci: "buildBalancedIndices 8 ?m (sdrop n2 (sdrop n1 ?rand)) = Inr (mci, rand3)"
      and "\<exists>n3. rand3 = sdrop n3 (sdrop n2 (sdrop n1 ?rand))"
    by blast
  then have r3: "\<forall>x\<in>sset rand3. 0 \<le> x \<and> x < 1" using sset_sdrop_range [OF r2] by blast
  from buildBalancedIndices_succeeds [OF r3] obtain msi rand4 where
    msi: "buildBalancedIndices 8 ?m rand3 = Inr (msi, rand4)" by blast
  note s1 = buildBalancedIndices_shape [OF _ pci] and s2 = buildBalancedIndices_shape [OF _ psi]
    and s3 = buildBalancedIndices_shape [OF _ mci] and s4 = buildBalancedIndices_shape [OF _ msi]
  have lc: "length (pci @ mci) = nat ?p + nat ?m" using s1(1) s3(1) by simp
  have ls: "length (psi @ msi) = nat ?p + nat ?m" using s2(1) s4(1) by simp
  have bc: "\<forall>x\<in>set (pci @ mci). x < 8" using s1(2) s3(2) by auto
  have bs: "\<forall>x\<in>set (psi @ msi). x < 8" using s2(2) s4(2) by auto
  have "\<exists>trials. traverse (buildTrial args ?p (pci @ mci) (psi @ msi)) [0..<nat (?p + ?m)]
          = Inr trials"
  proof (rule traverse_succeeds)
    fix t assume "t \<in> set [0..<nat (?p + ?m)]"
    then have t: "t < nat ?p + nat ?m" by auto
    have "t < length (pci @ mci) \<and> (pci @ mci) ! t < 8"
      using t lc bc by (metis nth_mem)
    moreover have "t < length (psi @ msi) \<and> (psi @ msi) ! t < 8"
      using t ls bs by (metis nth_mem)
    ultimately show "\<exists>y. buildTrial args ?p (pci @ mci) (psi @ msi) t = Inr y"
      using buildTrial_succeeds [OF assms(1,2)] by blast
  qed
  then obtain trials where
    "traverse (buildTrial args ?p (pci @ mci) (psi @ msi)) [0..<nat (?p + ?m)] = Inr trials"
    by blast
  with pci psi mci msi show ?thesis
    by (simp add: generateBlockPlan_def Let_def length_COLORS length_SHAPES)
qed

lemma generateBlockPlan_trials:
  assumes "generateBlockPlan args = Inr plan"
  shows "length (plan_trials plan) = nat (practiceTrialsOf args + measuredTrialsOf args)"
    and "trial \<in> set (plan_trials plan) \<Longrightarrow>
           \<exists>bci bsi t. buildTrial args (practiceTrialsOf args) bci bsi t = Inr trial"
    and "map isPractice (plan_trials plan)
           = map (\<lambda>t. int t < practiceTrialsOf args)
               [0..<nat (practiceTrialsOf args + measuredTrialsOf args)]"
    and "map trialIndexInBlock (plan_trials plan)
           = map (\<lambda>t. int t + 1) [0..<nat (practiceTrialsOf args + measuredTrialsOf args)]"
proof -
  let ?n = "nat (practiceTrialsOf args + measuredTrialsOf args)"
  from assms obtain bci bsi where
    tr: "traverse (buildTrial args (practiceTrialsOf args) bci bsi) [0..<?n]
           = Inr (plan_trials plan)"
    by (rule generateBlockPlan_Inr)
  note nth = traverse_nth [OF tr]
  from nth(1) show len: "length (plan_trials plan) = ?n" by simp
  show "trial \<in> set (plan_trials plan) \<Longrightarrow>
           \<exists>bci bsi t. buildTrial args (practiceTrialsOf args) bci bsi t = Inr trial"
  proof -
    assume "trial \<in> set (plan_trials plan)"
    then obtain t where t: "t < ?n" "trial = plan_trials plan ! t"
      using len by (metis in_set_conv_nth)
    with nth(2) [of t] have "buildTrial args (practiceTrialsOf args) bci bsi t = Inr trial"
      by simp
    then show ?thesis by blast
  qed
  show "map isPractice (plan_trials plan) = map (\<lambda>t. int t < practiceTrialsOf args) [0..<?n]"
  proof (rule nth_equalityI)
    show "length (map isPractice (plan_trials plan))
            = length (map (\<lambda>t. int t < practiceTrialsOf args) [0..<?n])"
      using len by simp
  next
    fix t assume "t < length (map isPractice (plan_trials plan))"
    then have t: "t < ?n" using len by simp
    with nth(2) [of t]
    have "buildTrial args (practiceTrialsOf args) bci bsi t = Inr (plan_trials plan ! t)"
      by simp
    from buildTrial_result(1) [OF this] t len
    show "map isPractice (plan_trials plan) ! t
            = map (\<lambda>t. int t < practiceTrialsOf args) [0..<?n] ! t" by simp
  qed
  show "map trialIndexInBlock (plan_trials plan) = map (\<lambda>t. int t + 1) [0..<?n]"
  proof (rule nth_equalityI)
    show "length (map trialIndexInBlock (plan_trials plan))
            = length (map (\<lambda>t. int t + 1) [0..<?n])"
      using len by simp
  next
    fix t assume "t < length (map trialIndexInBlock (plan_trials plan))"
    then have t: "t < ?n" using len by simp
    with nth(2) [of t]
    have "buildTrial args (practiceTrialsOf args) bci bsi t = Inr (plan_trials plan ! t)"
      by simp
    from buildTrial_result(10) [OF this] t len
    show "map trialIndexInBlock (plan_trials plan) ! t = map (\<lambda>t. int t + 1) [0..<?n] ! t"
      by simp
  qed
qed

lemma practice_flags:
  assumes "0 \<le> p" "0 \<le> m"
  shows "map (\<lambda>t. int t < p) [0..<nat (p + m)] = replicate (nat p) True @ replicate (nat m) False"
proof (rule nth_equalityI)
  show "length (map (\<lambda>t. int t < p) [0..<nat (p + m)])
          = length (replicate (nat p) True @ replicate (nat m) False)"
    using assms by (simp add: nat_add_distrib)
next
  fix t assume "t < length (map (\<lambda>t. int t < p) [0..<nat (p + m)])"
  then have "t < nat (p + m)" by simp
  then show "map (\<lambda>t. int t < p) [0..<nat (p + m)] ! t
               = (replicate (nat p) True @ replicate (nat m) False) ! t"
    using assms by (auto simp: nth_append nat_add_distrib)
qed

lemma length_filter_flags:
  "length (filter P xs) = length (filter (\<lambda>b. b) (map P xs))"
  "length (filter (\<lambda>x. \<not> P x) xs) = length (filter (\<lambda>b. \<not> b) (map P xs))"
  by (induction xs) simp_all

lemma generateBlockPlan_counts:
  assumes "generateBlockPlan args = Inr plan"
    and "0 \<le> practiceTrialsOf args" "0 \<le> measuredTrialsOf args"
  shows "length (plan_trials plan) = nat (practiceTrialsOf args) + nat (measuredTrialsOf args)"
    and "map isPractice (plan_trials plan)
           = replicate (nat (practiceTrialsOf args)) True
             @ replicate (nat (measuredTrialsOf args)) False"
    and "plan_practiceTrials plan = nat (practiceTrialsOf args)"
    and "plan_measuredTrials plan = nat (measuredTrialsOf args)"
    and "map trialIndexInBlock (plan_trials plan)
           = map (\<lambda>t. int t + 1)
               [0..<nat (practiceTrialsOf args) + nat (measuredTrialsOf args)]"
proof -
  note t = generateBlockPlan_trials [OF assms(1)]
  show "map trialIndexInBlock (plan_trials plan)
           = map (\<lambda>t. int t + 1)
               [0..<nat (practiceTrialsOf args) + nat (measuredTrialsOf args)]"
    using t(4) assms(2,3) by (simp add: nat_add_distrib)
  show "length (plan_trials plan) = nat (practiceTrialsOf args) + nat (measuredTrialsOf args)"
    using t(1) assms(2,3) by (simp add: nat_add_distrib)
  show f: "map isPractice (plan_trials plan)
           = replicate (nat (practiceTrialsOf args)) True
             @ replicate (nat (measuredTrialsOf args)) False"
    using t(3) practice_flags [OF assms(2,3)] by simp
  from assms(1) have c:
    "plan_practiceTrials plan = length (filter (\<lambda>trial. isPractice trial) (plan_trials plan))"
    "plan_measuredTrials plan = length (filter (\<lambda>trial. \<not> isPractice trial) (plan_trials plan))"
    by (auto elim: generateBlockPlan_Inr)
  have "length (filter (\<lambda>trial. isPractice trial) (plan_trials plan))
          = length (filter (\<lambda>b. b) (map isPractice (plan_trials plan)))"
    by (rule length_filter_flags(1))
  with c(1) show "plan_practiceTrials plan = nat (practiceTrialsOf args)" by (simp add: f)
  have "length (filter (\<lambda>trial. \<not> isPractice trial) (plan_trials plan))
          = length (filter (\<lambda>b. \<not> b) (map isPractice (plan_trials plan)))"
    by (rule length_filter_flags(2))
  with c(2) show "plan_measuredTrials plan = nat (measuredTrialsOf args)" by (simp add: f)
qed

text \<open>
  C1: for every trial of a plan that \<open>generateBlockPlan\<close> returns, in each of the
  three conditions, the trial has 8 items and exactly one of them matches the trial's
  target criterion (\<open>matchesTarget\<close>: the colour in the condition \<open>color\<close>, the shape
  in the condition \<open>shape\<close>, both in the condition \<open>combined\<close>): filtering the items by
  the criterion leaves a list of one item, and its identifier is the trial's
  \<open>correctItemId\<close>. The three errors of \<open>findItemForTarget\<close> are never the outcome of
  \<open>generateBlockPlan\<close>. And a plan is returned, with \<open>practiceTrials + measuredTrials\<close>
  trials, whenever the participant number, the block index and the block order are
  not negative (the spec counts negative numbers as malformed input), so the first
  statement is about something.
\<close>

theorem generateBlockPlan_unique_target:
  "(\<forall>plan trial. generateBlockPlan args = Inr plan \<longrightarrow> trial \<in> set (plan_trials plan) \<longrightarrow>
      trial_condition trial = arg_condition args \<and>
      length (trial_items trial) = 8 \<and>
      (\<exists>item. filter (matchesTarget (trial_condition trial) (trial_targetColor trial)
                        (trial_targetShape trial)) (trial_items trial) = [item] \<and>
               item_id item = correctItemId trial)) \<and>
   generateBlockPlan args \<noteq> Inl NoMatchingColor \<and>
   generateBlockPlan args \<noteq> Inl NoMatchingShape \<and>
   generateBlockPlan args \<noteq> Inl NoMatchingCombined \<and>
   (0 \<le> arg_participantNumber args \<and> 0 \<le> arg_blockIndex args \<and> 0 \<le> arg_blockOrder args \<longrightarrow>
      (\<exists>plan. generateBlockPlan args = Inr plan \<and>
         length (plan_trials plan) = nat (practiceTrialsOf args + measuredTrialsOf args)))"
proof (intro conjI allI impI)
  fix plan trial
  assume p: "generateBlockPlan args = Inr plan" and t: "trial \<in> set (plan_trials plan)"
  from generateBlockPlan_trials(2) [OF p t] obtain bci bsi k where
    b: "buildTrial args (practiceTrialsOf args) bci bsi k = Inr trial" by blast
  note r = buildTrial_result [OF b]
  show "trial_condition trial = arg_condition args" by (rule r(2))
  show "length (trial_items trial) = 8" by (rule r(7))
  from r(9) show "\<exists>item. filter (matchesTarget (trial_condition trial) (trial_targetColor trial)
                        (trial_targetShape trial)) (trial_items trial) = [item] \<and>
               item_id item = correctItemId trial" by auto
next
  show "generateBlockPlan args \<noteq> Inl NoMatchingColor"
    using generateBlockPlan_error [of args NoMatchingColor] by auto
  show "generateBlockPlan args \<noteq> Inl NoMatchingShape"
    using generateBlockPlan_error [of args NoMatchingShape] by auto
  show "generateBlockPlan args \<noteq> Inl NoMatchingCombined"
    using generateBlockPlan_error [of args NoMatchingCombined] by auto
next
  assume "0 \<le> arg_participantNumber args \<and> 0 \<le> arg_blockIndex args \<and> 0 \<le> arg_blockOrder args"
  then obtain plan where p: "generateBlockPlan args = Inr plan"
    using generateBlockPlan_succeeds by blast
  with generateBlockPlan_trials(1) [OF p]
  show "\<exists>plan. generateBlockPlan args = Inr plan \<and>
         length (plan_trials plan) = nat (practiceTrialsOf args + measuredTrialsOf args)" by blast
qed

theorem generateBlockPlan_unique_target_witness:
  "\<exists>plan. generateBlockPlan
             \<lparr>arg_participantNumber = 222222, arg_blockIndex = 0, arg_blockOrder = 1,
              arg_condition = Combined, arg_practiceTrials = None, arg_measuredTrials = None\<rparr>
           = Inr plan \<and>
         length (plan_trials plan) = 13 \<and>
         trial_condition (plan_trials plan ! 12) = Combined \<and>
         length (trial_items (plan_trials plan ! 12)) = 8 \<and>
         (\<exists>item. filter (matchesTarget (trial_condition (plan_trials plan ! 12))
                           (trial_targetColor (plan_trials plan ! 12))
                           (trial_targetShape (plan_trials plan ! 12)))
                    (trial_items (plan_trials plan ! 12)) = [item] \<and>
                  item_id item = correctItemId (plan_trials plan ! 12))"
proof -
  let ?args = "\<lparr>arg_participantNumber = 222222, arg_blockIndex = 0, arg_blockOrder = 1,
              arg_condition = Combined, arg_practiceTrials = None, arg_measuredTrials = None\<rparr>"
  note T = generateBlockPlan_unique_target [of ?args]
  note total = T [THEN conjunct2, THEN conjunct2, THEN conjunct2, THEN conjunct2]
  have "0 \<le> arg_participantNumber ?args \<and> 0 \<le> arg_blockIndex ?args \<and> 0 \<le> arg_blockOrder ?args"
    by simp
  with total obtain plan where p: "generateBlockPlan ?args = Inr plan"
    and "length (plan_trials plan) = nat (practiceTrialsOf ?args + measuredTrialsOf ?args)"
    by blast
  then have l: "length (plan_trials plan) = 13"
    by (simp add: practiceTrialsOf_def measuredTrialsOf_def DEFAULT_PRACTICE_TRIALS_def
          DEFAULT_MEASURED_TRIALS_def)
  then have m: "plan_trials plan ! 12 \<in> set (plan_trials plan)" by simp
  note R = T [THEN conjunct1, rule_format, OF p m]
  from R [THEN conjunct1] have a: "trial_condition (plan_trials plan ! 12) = Combined" by simp
  note b = R [THEN conjunct2, THEN conjunct1]
  note c = R [THEN conjunct2, THEN conjunct2]
  show ?thesis by (intro exI [of _ plan] conjI p l a b c)
qed

text \<open>
  C5: a call of \<open>generateBlockPlan\<close> with \<open>practiceTrials = p\<close> and
  \<open>measuredTrials = m\<close>, where an argument left out counts as 3 for \<open>p\<close> and as 10
  for \<open>m\<close>, and both are counts of trials and hence not negative: a plan that the call
  returns has exactly \<open>p + m\<close> trials, in the order of presentation (their
  \<open>trialIndexInBlock\<close> counts 1, 2, ...); the first \<open>p\<close> have \<open>isPractice = true\<close> and
  the \<open>m\<close> after them have \<open>isPractice = false\<close>; the plan's own fields
  \<open>practiceTrials\<close> and \<open>measuredTrials\<close> are \<open>p\<close> and \<open>m\<close>. A plan is returned
  whenever the participant number, the block index and the block order are not
  negative. The witness has a call that asks for 5 and 2 (7 trials, the first 5
  practice) and a call that leaves both out: 13 trials, 3 of them practice and 10 not.
\<close>

theorem generateBlockPlan_trial_counts:
  assumes "arg_practiceTrials args = Some p \<or> arg_practiceTrials args = None \<and> p = 3"
    and "arg_measuredTrials args = Some m \<or> arg_measuredTrials args = None \<and> m = 10"
    and "0 \<le> p" "0 \<le> m"
  shows "(\<forall>plan. generateBlockPlan args = Inr plan \<longrightarrow>
            length (plan_trials plan) = nat p + nat m \<and>
            map isPractice (plan_trials plan)
              = replicate (nat p) True @ replicate (nat m) False \<and>
            map trialIndexInBlock (plan_trials plan)
              = map (\<lambda>t. int t + 1) [0..<nat p + nat m] \<and>
            plan_practiceTrials plan = nat p \<and>
            plan_measuredTrials plan = nat m) \<and>
         (0 \<le> arg_participantNumber args \<and> 0 \<le> arg_blockIndex args \<and> 0 \<le> arg_blockOrder args
            \<longrightarrow> (\<exists>plan. generateBlockPlan args = Inr plan))"
proof (intro conjI allI impI)
  from assms(1) have p: "practiceTrialsOf args = p"
    by (auto simp: practiceTrialsOf_def DEFAULT_PRACTICE_TRIALS_def)
  from assms(2) have m: "measuredTrialsOf args = m"
    by (auto simp: measuredTrialsOf_def DEFAULT_MEASURED_TRIALS_def)
  from assms(3,4) have nn: "0 \<le> practiceTrialsOf args" "0 \<le> measuredTrialsOf args"
    by (simp_all add: p m)
  fix plan assume g: "generateBlockPlan args = Inr plan"
  note c = generateBlockPlan_counts [OF g nn, unfolded p m]
  show "length (plan_trials plan) = nat p + nat m" by (rule c(1))
  show "map isPractice (plan_trials plan) = replicate (nat p) True @ replicate (nat m) False"
    by (rule c(2))
  show "map trialIndexInBlock (plan_trials plan) = map (\<lambda>t. int t + 1) [0..<nat p + nat m]"
    by (rule c(5))
  show "plan_practiceTrials plan = nat p" by (rule c(3))
  show "plan_measuredTrials plan = nat m" by (rule c(4))
next
  assume "0 \<le> arg_participantNumber args \<and> 0 \<le> arg_blockIndex args \<and> 0 \<le> arg_blockOrder args"
  then show "\<exists>plan. generateBlockPlan args = Inr plan"
    using generateBlockPlan_succeeds by blast
qed

theorem generateBlockPlan_trial_counts_witness:
  "(\<exists>plan. generateBlockPlan
             \<lparr>arg_participantNumber = 123456, arg_blockIndex = 1, arg_blockOrder = 2,
              arg_condition = Color, arg_practiceTrials = Some 5, arg_measuredTrials = Some 2\<rparr>
           = Inr plan \<and>
         length (plan_trials plan) = 7 \<and>
         map isPractice (plan_trials plan) = [True, True, True, True, True, False, False] \<and>
         plan_practiceTrials plan = 5 \<and>
         plan_measuredTrials plan = 2) \<and>
   (\<exists>plan. generateBlockPlan
             \<lparr>arg_participantNumber = 123456, arg_blockIndex = 0, arg_blockOrder = 1,
              arg_condition = Combined, arg_practiceTrials = None, arg_measuredTrials = None\<rparr>
           = Inr plan \<and>
         length (plan_trials plan) = 13 \<and>
         map isPractice (plan_trials plan)
           = [True, True, True,
              False, False, False, False, False, False, False, False, False, False] \<and>
         plan_practiceTrials plan = 3 \<and>
         plan_measuredTrials plan = 10)"
proof (rule conjI)
  let ?args = "\<lparr>arg_participantNumber = 123456, arg_blockIndex = 1, arg_blockOrder = 2,
              arg_condition = Color, arg_practiceTrials = Some 5, arg_measuredTrials = Some 2\<rparr>"
  have "arg_practiceTrials ?args = Some 5 \<or> arg_practiceTrials ?args = None \<and> (5::int) = 3"
    and "arg_measuredTrials ?args = Some 2 \<or> arg_measuredTrials ?args = None \<and> (2::int) = 10"
    and "(0::int) \<le> 5" "(0::int) \<le> 2" by simp_all
  note T = generateBlockPlan_trial_counts [OF this]
  have "0 \<le> arg_participantNumber ?args \<and> 0 \<le> arg_blockIndex ?args \<and> 0 \<le> arg_blockOrder ?args"
    by simp
  with T [THEN conjunct2] obtain plan where p: "generateBlockPlan ?args = Inr plan" by blast
  from T [THEN conjunct1, rule_format, OF p] have
    "length (plan_trials plan) = 7 \<and>
     map isPractice (plan_trials plan) = [True, True, True, True, True, False, False] \<and>
     plan_practiceTrials plan = 5 \<and> plan_measuredTrials plan = 2"
    by (simp add: numeral_eq_Suc)
  with p show "\<exists>plan. generateBlockPlan ?args = Inr plan \<and>
         length (plan_trials plan) = 7 \<and>
         map isPractice (plan_trials plan) = [True, True, True, True, True, False, False] \<and>
         plan_practiceTrials plan = 5 \<and>
         plan_measuredTrials plan = 2"
    by (intro exI [of _ plan]) simp
next
  let ?args = "\<lparr>arg_participantNumber = 123456, arg_blockIndex = 0, arg_blockOrder = 1,
              arg_condition = Combined, arg_practiceTrials = None, arg_measuredTrials = None\<rparr>"
  have "arg_practiceTrials ?args = Some 3 \<or> arg_practiceTrials ?args = None \<and> (3::int) = 3"
    and "arg_measuredTrials ?args = Some 10 \<or> arg_measuredTrials ?args = None \<and> (10::int) = 10"
    and "(0::int) \<le> 3" "(0::int) \<le> 10" by simp_all
  note T = generateBlockPlan_trial_counts [OF this]
  have "0 \<le> arg_participantNumber ?args \<and> 0 \<le> arg_blockIndex ?args \<and> 0 \<le> arg_blockOrder ?args"
    by simp
  with T [THEN conjunct2] obtain plan where p: "generateBlockPlan ?args = Inr plan" by blast
  from T [THEN conjunct1, rule_format, OF p] have
    "length (plan_trials plan) = 13 \<and>
     map isPractice (plan_trials plan)
       = [True, True, True,
          False, False, False, False, False, False, False, False, False, False] \<and>
     plan_practiceTrials plan = 3 \<and> plan_measuredTrials plan = 10"
    by (simp add: numeral_eq_Suc)
  with p show "\<exists>plan. generateBlockPlan ?args = Inr plan \<and>
         length (plan_trials plan) = 13 \<and>
         map isPractice (plan_trials plan)
           = [True, True, True,
              False, False, False, False, False, False, False, False, False, False] \<and>
         plan_practiceTrials plan = 3 \<and>
         plan_measuredTrials plan = 10"
    by (intro exI [of _ plan]) simp
qed

text \<open>
  Every trial of a plan has exactly 8 items, and their identifiers are \<open>item_1\<close> to
  \<open>item_8\<close> in the order of the grid, hence 8 distinct identifiers.
\<close>

lemma item_ids:
  "map (\<lambda>i. ''item_'' @ decimal (i + 1)) [0..<8]
     = [''item_1'', ''item_2'', ''item_3'', ''item_4'',
        ''item_5'', ''item_6'', ''item_7'', ''item_8'']"
  by (simp add: upt_rec decimal.simps digit_def)

theorem trial_items_identifiers:
  assumes "generateBlockPlan args = Inr plan" "trial \<in> set (plan_trials plan)"
  shows "length (trial_items trial) = 8 \<and>
         map item_id (trial_items trial)
           = [''item_1'', ''item_2'', ''item_3'', ''item_4'',
              ''item_5'', ''item_6'', ''item_7'', ''item_8''] \<and>
         distinct (map item_id (trial_items trial))"
proof -
  from generateBlockPlan_trials(2) [OF assms] obtain bci bsi k where
    b: "buildTrial args (practiceTrialsOf args) bci bsi k = Inr trial" by blast
  note r = buildTrial_result [OF b]
  from r(8) have ids: "map item_id (trial_items trial)
           = [''item_1'', ''item_2'', ''item_3'', ''item_4'',
              ''item_5'', ''item_6'', ''item_7'', ''item_8'']"
    by (simp only: item_ids)
  then have "distinct (map item_id (trial_items trial))" by simp
  with r(7) ids show ?thesis by simp
qed

theorem trial_items_identifiers_witness:
  "\<exists>plan. generateBlockPlan
             \<lparr>arg_participantNumber = 111111, arg_blockIndex = 2, arg_blockOrder = 3,
              arg_condition = Shape, arg_practiceTrials = Some 3,
              arg_measuredTrials = Some 10\<rparr> = Inr plan \<and>
          length (trial_items (plan_trials plan ! 0)) = 8 \<and>
          distinct (map item_id (trial_items (plan_trials plan ! 0)))"
proof -
  let ?args = "\<lparr>arg_participantNumber = 111111, arg_blockIndex = 2, arg_blockOrder = 3,
              arg_condition = Shape, arg_practiceTrials = Some 3,
              arg_measuredTrials = Some 10\<rparr>"
  obtain plan where p: "generateBlockPlan ?args = Inr plan"
    using generateBlockPlan_succeeds [of ?args] by auto
  from generateBlockPlan_trials(1) [OF p] have "length (plan_trials plan) = 13"
    by (simp add: practiceTrialsOf_def measuredTrialsOf_def)
  then have m: "plan_trials plan ! 0 \<in> set (plan_trials plan)" by simp
  note T = trial_items_identifiers [OF p m]
  show ?thesis by (intro exI [of _ plan] conjI p T [THEN conjunct1] T [THEN conjunct2, THEN conjunct2])
qed

section \<open>Properties of the counterbalancing\<close>

lemma getLatinSquareOrder_nonneg:
  assumes "0 \<le> n"
  shows "getLatinSquareOrder n = Some (LATIN_SQUARE_3 ! nat (n mod 3))"
proof -
  have "js_rem n 3 = n mod 3" using assms by (simp add: js_rem_nonneg)
  moreover have "0 \<le> n mod 3" "n mod 3 < 3" by simp_all
  then have "nat (n mod 3) < 3" by simp
  ultimately show ?thesis
    by (simp add: getLatinSquareOrder_def js_index_def LATIN_SQUARE_3_def Let_def)
qed

lemma mod_3_cases: "(n::int) mod 3 = 0 \<or> n mod 3 = 1 \<or> n mod 3 = 2"
  by presburger

text \<open>
  C6: for every participant number \<open>n\<close> (an integer that is not negative),
  \<open>orderToLabel (getLatinSquareOrder n)\<close> is \<open>ABC\<close> when \<open>n mod 3 = 0\<close>, \<open>BCA\<close> when
  \<open>n mod 3 = 1\<close> and \<open>CAB\<close> when \<open>n mod 3 = 2\<close>; and the three orders form a Latin
  square: at each of the three positions each condition occurs in exactly one order,
  and each order holds each condition exactly once.
\<close>

theorem latin_square_label:
  assumes "0 \<le> n"
  shows "(\<exists>order. getLatinSquareOrder n = Some order \<and>
            orderToLabel order
              = (if n mod 3 = 0 then ''ABC'' else if n mod 3 = 1 then ''BCA'' else ''CAB'')) \<and>
         (\<forall>pos<3. mset (map (\<lambda>order. order ! pos) LATIN_SQUARE_3) = {#Color, Shape, Combined#}) \<and>
         (\<forall>order\<in>set LATIN_SQUARE_3. mset order = {#Color, Shape, Combined#})"
proof (intro conjI)
  show "\<exists>order. getLatinSquareOrder n = Some order \<and>
            orderToLabel order
              = (if n mod 3 = 0 then ''ABC'' else if n mod 3 = 1 then ''BCA'' else ''CAB'')"
    using mod_3_cases [of n] getLatinSquareOrder_nonneg [OF assms]
    by (auto simp: orderToLabel_def LATIN_SQUARE_3_def)
  show "\<forall>pos<3. mset (map (\<lambda>order. order ! pos) LATIN_SQUARE_3) = {#Color, Shape, Combined#}"
  proof (intro allI impI)
    fix pos :: nat assume "pos < 3"
    then have "pos = 0 \<or> pos = 1 \<or> pos = 2" by auto
    then show "mset (map (\<lambda>order. order ! pos) LATIN_SQUARE_3) = {#Color, Shape, Combined#}"
      by (auto simp: LATIN_SQUARE_3_def)
  qed
  show "\<forall>order\<in>set LATIN_SQUARE_3. mset order = {#Color, Shape, Combined#}"
    by (auto simp: LATIN_SQUARE_3_def)
qed

theorem latin_square_label_witness:
  "(\<exists>order. getLatinSquareOrder 100001 = Some order \<and> orderToLabel order = ''CAB'') \<and>
   mset (map (\<lambda>order. order ! 1) LATIN_SQUARE_3) = {#Color, Shape, Combined#}"
proof -
  have "(0::int) \<le> 100001" by simp
  from latin_square_label [OF this] show ?thesis by simp
qed

text \<open>
  Below zero the remainder of \<open>%\<close> is negative unless \<open>n\<close> is a multiple of 3; the
  table has no such index and \<open>getLatinSquareOrder\<close> returns \<open>undefined\<close>.
\<close>

lemma getLatinSquareOrder_negative:
  "getLatinSquareOrder (- 1) = None \<and> getLatinSquareOrder (- 2) = None \<and>
   getLatinSquareOrder (- 3) = Some [Color, Shape, Combined]"
  by (simp add: getLatinSquareOrder_def js_rem_def js_index_def LATIN_SQUARE_3_def)

section \<open>Determinism\<close>

text \<open>
  A function on the heap does what the function on streams does when the stream is the
  one of the closure's variable: it returns the same value or throws the same error.
  A function that is given a closure leaves the heap as it was but for the variable of
  that closure, whose stream is then the rest of the stream; a function that creates
  its closure leaves the heap as it was but for the new variable.
\<close>

lemma rand_call_closure:
  assumes "rand < length h"
  shows "fst (rand_call rand h) = shd (seededRandom_closure (h ! rand))"
    and "snd (rand_call rand h) = h[rand := seededRandom_step (h ! rand)]"
    and "seededRandom_closure (snd (rand_call rand h) ! rand)
           = stl (seededRandom_closure (h ! rand))"
  using assms by (simp_all add: rand_call_def Let_def shd_closure stl_closure)

lemma shuffle_loop_heap_refines:
  assumes "rand < length h"
  shows "case shuffle_loop k nxt (seededRandom_closure (h ! rand)) of
           Inl e \<Rightarrow> shuffle_loop_heap k nxt rand h = Inl e
         | Inr (xs, rest) \<Rightarrow>
             \<exists>s. shuffle_loop_heap k nxt rand h = Inr (xs, h[rand := s])
                  \<and> rest = seededRandom_closure s"
  using assms
proof (induction k arbitrary: nxt h)
  case 0
  have "h = h[rand := h ! rand]" by simp
  then show ?case by (auto intro: exI [of _ "h ! rand"])
next
  case (Suc k)
  let ?h1 = "h[rand := seededRandom_step (h ! rand)]"
  let ?j = "draw_index (shd (seededRandom_closure (h ! rand))) (Suc k)"
  have l: "rand < length ?h1" using Suc.prems by simp
  have c: "seededRandom_closure (?h1 ! rand) = stl (seededRandom_closure (h ! rand))"
    using Suc.prems by (simp add: stl_closure)
  have o: "?h1[rand := s] = h[rand := s]" for s by simp
  show ?case
  proof (cases "0 \<le> ?j \<and> ?j < int (length nxt)")
    case True
    have p: "shuffle_loop (Suc k) nxt (seededRandom_closure (h ! rand))
               = shuffle_loop k (swap (Suc k) (nat ?j) nxt) (seededRandom_closure (?h1 ! rand))"
      using True by (simp add: Let_def c)
    have q: "shuffle_loop_heap (Suc k) nxt rand h
               = shuffle_loop_heap k (swap (Suc k) (nat ?j) nxt) rand ?h1"
      using True Suc.prems by (simp add: rand_call_def Let_def shd_closure)
    from Suc.IH [OF l, of "swap (Suc k) (nat ?j) nxt"] show ?thesis
      unfolding p q o .
  next
    case False
    then show ?thesis using Suc.prems
      by (auto simp: rand_call_def Let_def shd_closure)
  qed
qed


lemma shuffle_heap_refines:
  assumes "rand < length h" "seededRandom_closure (h ! rand) = stream"
  shows "case shuffle array stream of
           Inl e \<Rightarrow> shuffle_heap array rand h = Inl e
         | Inr (xs, rest) \<Rightarrow>
             \<exists>s. shuffle_heap array rand h = Inr (xs, h[rand := s])
                  \<and> rest = seededRandom_closure s"
  using shuffle_loop_heap_refines [OF assms(1), of "length array - 1" array]
  unfolding shuffle_def shuffle_heap_def assms(2) .

lemma buildBalancedIndices_heap_refines:
  assumes "rand < length h" "seededRandom_closure (h ! rand) = stream"
  shows "case buildBalancedIndices len cnt stream of
           Inl e \<Rightarrow> buildBalancedIndices_heap len cnt rand h = Inl e
         | Inr (xs, rest) \<Rightarrow>
             \<exists>s. buildBalancedIndices_heap len cnt rand h = Inr (xs, h[rand := s])
                  \<and> rest = seededRandom_closure s"
proof (cases "cnt \<le> 0 \<or> len \<le> 0")
  case True
  have "h = h[rand := h ! rand]" by simp
  with True assms(2) show ?thesis
    by (auto simp: buildBalancedIndices_def buildBalancedIndices_heap_def
          intro: exI [of _ "h ! rand"])
next
  case False
  let ?indices = "baseIndices (nat len) (nat (cnt div len))"
  show ?thesis
  proof (cases "js_rem cnt len > 0")
    case r: False
    have p: "buildBalancedIndices len cnt stream = shuffle ?indices stream"
      and q: "buildBalancedIndices_heap len cnt rand h = shuffle_heap ?indices rand h"
      using False r by (simp_all add: buildBalancedIndices_def buildBalancedIndices_heap_def Let_def)
    from shuffle_heap_refines [OF assms, of ?indices] show ?thesis
      unfolding p q .
  next
    case r: True
    note first = shuffle_heap_refines [OF assms, of "[0..<nat len]"]
    show ?thesis
    proof (cases "shuffle [0..<nat len] stream")
      case (Inl e)
      with first have "shuffle_heap [0..<nat len] rand h = Inl e" by simp
      with Inl False r show ?thesis
        by (simp add: buildBalancedIndices_def buildBalancedIndices_heap_def Let_def)
    next
      case (Inr res)
      obtain shuffled rand1 where res: "res = (shuffled, rand1)" by (cases res)
      from first Inr res obtain s1 where
        h1: "shuffle_heap [0..<nat len] rand h = Inr (shuffled, h[rand := s1])"
        and r1: "rand1 = seededRandom_closure s1" by auto
      let ?xs = "?indices @ take (nat (js_rem cnt len)) shuffled"
      have p: "buildBalancedIndices len cnt stream = shuffle ?xs rand1"
        using False r Inr res by (simp add: buildBalancedIndices_def Let_def)
      have q: "buildBalancedIndices_heap len cnt rand h = shuffle_heap ?xs rand (h[rand := s1])"
        using False r h1 by (simp add: buildBalancedIndices_heap_def Let_def)
      have l: "rand < length (h[rand := s1])" using assms(1) by simp
      have c: "seededRandom_closure (h[rand := s1] ! rand) = rand1"
        using assms(1) r1 by simp
      have o: "h[rand := s1, rand := s] = h[rand := s]" for s by simp
      from shuffle_heap_refines [OF l c, of ?xs] show ?thesis
        unfolding p q o .
    qed
  qed
qed

lemma alloc_update: "(h @ [x])[length h := s] = h @ [s]"
  by simp

lemma seededRandom_heap_closure:
  "seededRandom_heap seed h = (length h, h @ [seededRandom_state seed])"
  "length h < length (h @ [seededRandom_state seed])"
  "seededRandom_closure ((h @ [seededRandom_state seed]) ! length h) = seededRandom seed"
  by (simp_all add: seededRandom_heap_def seededRandom_def)

lemma buildItemsForColorOnlyTrial_heap_refines:
  "case buildItemsForColorOnlyTrial seed of
     Inl e \<Rightarrow> buildItemsForColorOnlyTrial_heap seed h = Inl e
   | Inr items \<Rightarrow> \<exists>s. buildItemsForColorOnlyTrial_heap seed h = Inr (items, h @ [s])"
proof -
  note sh = shuffle_heap_refines [OF seededRandom_heap_closure(2) [of h seed]
      seededRandom_heap_closure(3) [of h seed], of "[0..<length COLORS]"]
  show ?thesis
  proof (cases "shuffle [0..<length COLORS] (seededRandom seed)")
    case (Inl e)
    with sh show ?thesis
      by (simp add: buildItemsForColorOnlyTrial_def buildItemsForColorOnlyTrial_heap_def
            seededRandom_heap_closure(1))
  next
    case (Inr res)
    obtain order rest where res: "res = (order, rest)" by (cases res)
    from sh Inr res obtain s where
      "shuffle_heap [0..<length COLORS] (length h) (h @ [seededRandom_state seed])
         = Inr (order, h @ [s])" by (auto simp: alloc_update)
    with Inr res show ?thesis
      by (auto simp: buildItemsForColorOnlyTrial_def buildItemsForColorOnlyTrial_heap_def
            seededRandom_heap_closure(1) and_then_def split: sum.splits)
  qed
qed

lemma buildItemsForShapeOnlyTrial_heap_refines:
  "case buildItemsForShapeOnlyTrial seed of
     Inl e \<Rightarrow> buildItemsForShapeOnlyTrial_heap seed h = Inl e
   | Inr items \<Rightarrow> \<exists>s. buildItemsForShapeOnlyTrial_heap seed h = Inr (items, h @ [s])"
proof -
  note sh = shuffle_heap_refines [OF seededRandom_heap_closure(2) [of h seed]
      seededRandom_heap_closure(3) [of h seed], of "[0..<length SHAPES]"]
  show ?thesis
  proof (cases "shuffle [0..<length SHAPES] (seededRandom seed)")
    case (Inl e)
    with sh show ?thesis
      by (simp add: buildItemsForShapeOnlyTrial_def buildItemsForShapeOnlyTrial_heap_def
            seededRandom_heap_closure(1))
  next
    case (Inr res)
    obtain order rest where res: "res = (order, rest)" by (cases res)
    from sh Inr res obtain s where
      "shuffle_heap [0..<length SHAPES] (length h) (h @ [seededRandom_state seed])
         = Inr (order, h @ [s])" by (auto simp: alloc_update)
    with Inr res show ?thesis
      by (auto simp: buildItemsForShapeOnlyTrial_def buildItemsForShapeOnlyTrial_heap_def
            seededRandom_heap_closure(1) and_then_def split: sum.splits)
  qed
qed


lemma shuffle_heap_top:
  assumes "seededRandom_closure s0 = stream"
  shows "case shuffle array stream of
           Inl e \<Rightarrow> shuffle_heap array (length h) (h @ [s0]) = Inl e
         | Inr (xs, rest) \<Rightarrow>
             \<exists>s. shuffle_heap array (length h) (h @ [s0]) = Inr (xs, h @ [s])
                  \<and> rest = seededRandom_closure s"
proof -
  have "length h < length (h @ [s0])" by simp
  moreover have "seededRandom_closure ((h @ [s0]) ! length h) = stream" using assms by simp
  ultimately show ?thesis
    using shuffle_heap_refines [of "length h" "h @ [s0]" stream array]
    by (simp only: alloc_update)
qed

lemma buildBalancedIndices_heap_top:
  assumes "seededRandom_closure s0 = stream"
  shows "case buildBalancedIndices len cnt stream of
           Inl e \<Rightarrow> buildBalancedIndices_heap len cnt (length h) (h @ [s0]) = Inl e
         | Inr (xs, rest) \<Rightarrow>
             \<exists>s. buildBalancedIndices_heap len cnt (length h) (h @ [s0]) = Inr (xs, h @ [s])
                  \<and> rest = seededRandom_closure s"
proof -
  have "length h < length (h @ [s0])" by simp
  moreover have "seededRandom_closure ((h @ [s0]) ! length h) = stream" using assms by simp
  ultimately show ?thesis
    using buildBalancedIndices_heap_refines [of "length h" "h @ [s0]" stream len cnt]
    by (simp only: alloc_update)
qed

lemma buildCombinedItemsForTarget_heap_refines:
  "case buildCombinedItemsForTarget seed tc ts of
     Inl e \<Rightarrow> buildCombinedItemsForTarget_heap seed tc ts h = Inl e
   | Inr items \<Rightarrow> \<exists>s. buildCombinedItemsForTarget_heap seed tc ts h = Inr (items, h @ [s])"
proof -
  let ?A = "filter (\<lambda>color. fst color \<noteq> tc) COLORS"
  let ?B = "filter (\<lambda>shape. fst shape \<noteq> ts) SHAPES"
  note defs = buildCombinedItemsForTarget_def buildCombinedItemsForTarget_heap_def
    seededRandom_heap_closure(1) Let_def
  have c0: "seededRandom_closure (seededRandom_state seed) = seededRandom seed"
    by (simp add: seededRandom_def)
  note sh1 = shuffle_heap_top [OF c0, of ?A h]
  show ?thesis
  proof (cases "shuffle ?A (seededRandom seed)")
    case (Inl e)
    with sh1 show ?thesis by (simp add: defs)
  next
    case i1: (Inr res1)
    obtain rc rand1 where res1: "res1 = (rc, rand1)" by (cases res1)
    from sh1 i1 res1 obtain s1 where
      h1: "shuffle_heap ?A (length h) (h @ [seededRandom_state seed]) = Inr (rc, h @ [s1])"
      and c1: "seededRandom_closure s1 = rand1" by auto
    note sh2 = shuffle_heap_top [OF c1, of ?B h]
    show ?thesis
    proof (cases "shuffle ?B rand1")
      case (Inl e)
      with sh2 i1 res1 h1 show ?thesis by (simp add: defs)
    next
      case i2: (Inr res2)
      obtain rs rand2 where res2: "res2 = (rs, rand2)" by (cases res2)
      from sh2 i2 res2 obtain s2 where
        h2: "shuffle_heap ?B (length h) (h @ [s1]) = Inr (rs, h @ [s2])"
        and c2: "seededRandom_closure s2 = rand2" by auto
      let ?pairs = "traverse (\<lambda>i.
                  and_then (defined (js_index rc i)) (\<lambda>color.
                  and_then (defined (js_index rs i)) (\<lambda>shape.
                  Inr (color, shape))))
                [0..<7]"
      show ?thesis
      proof (cases ?pairs)
        case (Inl e)
        with i1 res1 h1 i2 res2 h2 show ?thesis by (simp add: defs)
      next
        case i3: (Inr rest)
        let ?target = "((tc, case find (\<lambda>color. fst color = tc) COLORS of
                   Some color \<Rightarrow> snd color | None \<Rightarrow> ''#000000''),
                (ts, case find (\<lambda>shape. fst shape = ts) SHAPES of
                   Some shape \<Rightarrow> snd shape | None \<Rightarrow> ''U+25A0''))"
        note sh3 = shuffle_heap_top [OF c2, of "?target # rest" h]
        show ?thesis
        proof (cases "shuffle (?target # rest) rand2")
          case (Inl e)
          with sh3 i1 res1 h1 i2 res2 h2 i3 show ?thesis by (simp add: defs)
        next
          case i4: (Inr res4)
          obtain ordered rand3 where res4: "res4 = (ordered, rand3)" by (cases res4)
          from sh3 i4 res4 obtain s3 where
            h3: "shuffle_heap (?target # rest) (length h) (h @ [s2]) = Inr (ordered, h @ [s3])"
            by auto
          with i1 res1 h1 i2 res2 h2 i3 i4 res4 show ?thesis by (simp add: defs)
        qed
      qed
    qed
  qed
qed

lemma buildTrial_heap_refines:
  "case buildTrial args p bci bsi t of
     Inl e \<Rightarrow> buildTrial_heap args p bci bsi t h = Inl e
   | Inr trial \<Rightarrow> \<exists>s. buildTrial_heap args p bci bsi t h = Inr (trial, h @ [s])"
proof -
  let ?seed = "arg_participantNumber args * 100000 + arg_blockIndex args * 1000 + int t + 1"
  let ?tc = "if arg_condition args = Shape then Inr ''black''
            else and_then (entry_at COLORS bci t) (\<lambda>color. Inr (fst color))"
  let ?ts = "if arg_condition args = Color then Inr ''circle''
            else and_then (entry_at SHAPES bsi t) (\<lambda>shape. Inr (fst shape))"
  note defs = buildTrial_def buildTrial_heap_def Let_def
  show ?thesis
  proof (cases ?tc)
    case (Inl e)
    then show ?thesis by (simp add: defs)
  next
    case c: (Inr targetColor)
    show ?thesis
    proof (cases ?ts)
      case (Inl e)
      with c show ?thesis by (simp add: defs)
    next
      case s: (Inr targetShape)
      let ?items = "if arg_condition args = Color then buildItemsForColorOnlyTrial ?seed
            else if arg_condition args = Shape then buildItemsForShapeOnlyTrial ?seed
            else buildCombinedItemsForTarget ?seed targetColor targetShape"
      let ?items_heap = "if arg_condition args = Color then buildItemsForColorOnlyTrial_heap ?seed h
            else if arg_condition args = Shape then buildItemsForShapeOnlyTrial_heap ?seed h
            else buildCombinedItemsForTarget_heap ?seed targetColor targetShape h"
      have r: "case ?items of Inl e \<Rightarrow> ?items_heap = Inl e
               | Inr items \<Rightarrow> \<exists>s. ?items_heap = Inr (items, h @ [s])"
        using buildItemsForColorOnlyTrial_heap_refines [of ?seed h]
          buildItemsForShapeOnlyTrial_heap_refines [of ?seed h]
          buildCombinedItemsForTarget_heap_refines [of ?seed targetColor targetShape h]
        by simp
      show ?thesis
      proof (cases ?items)
        case (Inl e)
        with r have "?items_heap = Inl e" by simp
        with Inl c s show ?thesis by (simp add: defs)
      next
        case i: (Inr items)
        with r obtain s1 where "?items_heap = Inr (items, h @ [s1])" by auto
        with i c s show ?thesis
          by (cases "findItemForTarget items targetColor targetShape (arg_condition args)")
            (simp_all add: defs)
      qed
    qed
  qed
qed

lemma traverse_heap_refines:
  assumes "\<And>x h. x \<in> set xs \<Longrightarrow>
             (case f x of Inl e \<Rightarrow> fh x h = Inl e
              | Inr y \<Rightarrow> \<exists>s. fh x h = Inr (y, h @ [s]))"
  shows "case traverse f xs of
           Inl e \<Rightarrow> traverse_heap fh xs h = Inl e
         | Inr ys \<Rightarrow> \<exists>ss. traverse_heap fh xs h = Inr (ys, h @ ss)"
  using assms
proof (induction xs arbitrary: h)
  case Nil
  then show ?case by simp
next
  case (Cons x xs)
  note hd = Cons.prems [of x h, simplified]
  show ?case
  proof (cases "f x")
    case (Inl e)
    with hd show ?thesis by simp
  next
    case y: (Inr y)
    with hd obtain s where s: "fh x h = Inr (y, h @ [s])" by auto
    have "case traverse f xs of
           Inl e \<Rightarrow> traverse_heap fh xs (h @ [s]) = Inl e
         | Inr ys \<Rightarrow> \<exists>ss. traverse_heap fh xs (h @ [s]) = Inr (ys, (h @ [s]) @ ss)"
      by (rule Cons.IH) (simp add: Cons.prems)
    then show ?thesis using y s
      by (cases "traverse f xs") auto
  qed
qed


lemma generateBlockPlan_heap_refines:
  "case generateBlockPlan args of
     Inl e \<Rightarrow> generateBlockPlan_heap args h = Inl e
   | Inr plan \<Rightarrow> \<exists>ss. generateBlockPlan_heap args h = Inr (plan, h @ ss)"
proof -
  let ?p = "practiceTrialsOf args" and ?m = "measuredTrialsOf args"
  let ?seed = "arg_participantNumber args * 1000 + arg_blockIndex args * 77
                 + arg_blockOrder args * 19"
  let ?C = "int (length COLORS)" and ?S = "int (length SHAPES)"
  note defs = generateBlockPlan_def generateBlockPlan_heap_def seededRandom_heap_closure(1)
    Let_def
  have c0: "seededRandom_closure (seededRandom_state ?seed) = seededRandom ?seed"
    by (simp add: seededRandom_def)
  note b1 = buildBalancedIndices_heap_top [OF c0, of ?C ?p h]
  show ?thesis
  proof (cases "buildBalancedIndices ?C ?p (seededRandom ?seed)")
    case (Inl e)
    with b1 show ?thesis by (simp add: defs)
  next
    case i1: (Inr res1)
    obtain pci rand1 where res1: "res1 = (pci, rand1)" by (cases res1)
    from b1 i1 res1 obtain s1 where
      h1: "buildBalancedIndices_heap ?C ?p (length h) (h @ [seededRandom_state ?seed])
             = Inr (pci, h @ [s1])"
      and c1: "seededRandom_closure s1 = rand1" by auto
    note b2 = buildBalancedIndices_heap_top [OF c1, of ?S ?p h]
    show ?thesis
    proof (cases "buildBalancedIndices ?S ?p rand1")
      case (Inl e)
      with b2 i1 res1 h1 show ?thesis by (simp add: defs)
    next
      case i2: (Inr res2)
      obtain psi rand2 where res2: "res2 = (psi, rand2)" by (cases res2)
      from b2 i2 res2 obtain s2 where
        h2: "buildBalancedIndices_heap ?S ?p (length h) (h @ [s1]) = Inr (psi, h @ [s2])"
        and c2: "seededRandom_closure s2 = rand2" by auto
      note b3 = buildBalancedIndices_heap_top [OF c2, of ?C ?m h]
      show ?thesis
      proof (cases "buildBalancedIndices ?C ?m rand2")
        case (Inl e)
        with b3 i1 res1 h1 i2 res2 h2 show ?thesis by (simp add: defs)
      next
        case i3: (Inr res3)
        obtain mci rand3 where res3: "res3 = (mci, rand3)" by (cases res3)
        from b3 i3 res3 obtain s3 where
          h3: "buildBalancedIndices_heap ?C ?m (length h) (h @ [s2]) = Inr (mci, h @ [s3])"
          and c3: "seededRandom_closure s3 = rand3" by auto
        note b4 = buildBalancedIndices_heap_top [OF c3, of ?S ?m h]
        show ?thesis
        proof (cases "buildBalancedIndices ?S ?m rand3")
          case (Inl e)
          with b4 i1 res1 h1 i2 res2 h2 i3 res3 h3 show ?thesis by (simp add: defs)
        next
          case i4: (Inr res4)
          obtain msi rand4 where res4: "res4 = (msi, rand4)" by (cases res4)
          from b4 i4 res4 obtain s4 where
            h4: "buildBalancedIndices_heap ?S ?m (length h) (h @ [s3]) = Inr (msi, h @ [s4])"
            by auto
          let ?f = "buildTrial args ?p (pci @ mci) (psi @ msi)"
          let ?fh = "buildTrial_heap args ?p (pci @ mci) (psi @ msi)"
          have t: "case traverse ?f [0..<nat (?p + ?m)] of
                     Inl e \<Rightarrow> traverse_heap ?fh [0..<nat (?p + ?m)] (h @ [s4]) = Inl e
                   | Inr ys \<Rightarrow>
                       \<exists>ss. traverse_heap ?fh [0..<nat (?p + ?m)] (h @ [s4])
                              = Inr (ys, (h @ [s4]) @ ss)"
            by (rule traverse_heap_refines) (rule buildTrial_heap_refines)
          show ?thesis
          proof (cases "traverse ?f [0..<nat (?p + ?m)]")
            case (Inl e)
            with t i1 res1 h1 i2 res2 h2 i3 res3 h3 i4 res4 h4 show ?thesis
              by (simp add: defs)
          next
            case i5: (Inr trials)
            with t obtain ss where
              "traverse_heap ?fh [0..<nat (?p + ?m)] (h @ [s4]) = Inr (trials, h @ s4 # ss)"
              by auto
            with i1 res1 h1 i2 res2 h2 i3 res3 h3 i4 res4 h4 i5 show ?thesis
              by (simp add: defs)
          qed
        qed
      qed
    qed
  qed
qed

lemma returned_eq_Inr: "returned outcome = Inr x \<longleftrightarrow> (\<exists>h. outcome = Inr (x, h))"
  by (auto simp: returned_def split: sum.splits)

lemma returned_generateBlockPlan_heap:
  "returned (generateBlockPlan_heap args h) = generateBlockPlan args"
  using generateBlockPlan_heap_refines [of args h]
  by (cases "generateBlockPlan args") (auto simp: returned_def)

lemma generateBlockPlan_heap_frame:
  assumes "generateBlockPlan_heap args h = Inr (plan, h')"
  shows "take (length h) h' = h"
  using generateBlockPlan_heap_refines [of args h] assms
  by (cases "generateBlockPlan args") auto

text \<open>
  A function that is given a closure depends on the closure's variable: two calls of
  \<open>shuffle\<close> with the same array and the same closure return different arrays,
  because the first call has moved the variable on.
\<close>

lemma shuffle_loop_heap_pos:
  "0 < i \<Longrightarrow> shuffle_loop_heap i nxt rand h =
     (let (r, h1) = rand_call rand h;
          j = draw_index r i
      in if 0 \<le> j \<and> j < int (length nxt)
         then shuffle_loop_heap (i - 1) (swap i (nat j) nxt) rand h1
         else Inl UndefinedElement)"
  by (cases i) (auto simp: Let_def split: prod.splits)

lemma shuffle_heap_shared:
  "shuffle_heap [10, 20, 30, 40 :: nat] 0 [42] = Inr ([40, 30, 20, 10], [1579310009]) \<and>
   shuffle_heap [10, 20, 30, 40 :: nat] 0 [1579310009] = Inr ([30, 10, 40, 20], [421520601])"
  by (simp add: shuffle_heap_def shuffle_loop_heap_pos rand_call_def Let_def draw_index_value
        seededRandom_step_def js_rem_def swap_def)

text \<open>
  C4: two calls of \<open>generateBlockPlan\<close> with the same \<open>participantNumber\<close>,
  \<open>blockIndex\<close>, \<open>blockOrder\<close>, \<open>condition\<close>, \<open>practiceTrials\<close> and \<open>measuredTrials\<close>
  return the same plan: the same trials in the same order, the same items in the same
  order in each trial, the same targets and the same \<open>correctItemId\<close>s (or they throw
  the same error). This holds on any two heaps, that is whatever closures exist and
  whatever has been drawn from them before either call, and so also when the second
  call runs on the heap that the first has left (the witness). A call changes no
  variable that existed before it. The planner draws only from closures that it
  creates itself, from seeds computed from its arguments; \<open>Math.random\<close> is used by
  \<open>createParticipantNumber\<close> only, which the planner does not call.
\<close>

theorem generateBlockPlan_deterministic:
  assumes "arg_participantNumber a = arg_participantNumber b"
    and "arg_blockIndex a = arg_blockIndex b"
    and "arg_blockOrder a = arg_blockOrder b"
    and "arg_condition a = arg_condition b"
    and "arg_practiceTrials a = arg_practiceTrials b"
    and "arg_measuredTrials a = arg_measuredTrials b"
  shows "returned (generateBlockPlan_heap a h1) = returned (generateBlockPlan_heap b h2) \<and>
         (\<forall>plan h'. generateBlockPlan_heap a h1 = Inr (plan, h') \<longrightarrow> take (length h1) h' = h1)"
proof
  from assms have "a = b" by (cases a, cases b) simp
  then show "returned (generateBlockPlan_heap a h1) = returned (generateBlockPlan_heap b h2)"
    by (simp only: returned_generateBlockPlan_heap)
  show "\<forall>plan h'. generateBlockPlan_heap a h1 = Inr (plan, h') \<longrightarrow> take (length h1) h' = h1"
    using generateBlockPlan_heap_frame by blast
qed

theorem generateBlockPlan_deterministic_witness:
  "\<exists>plan h' h''.
     generateBlockPlan_heap
       \<lparr>arg_participantNumber = 123456, arg_blockIndex = 0, arg_blockOrder = 1,
        arg_condition = Combined, arg_practiceTrials = Some 3, arg_measuredTrials = Some 10\<rparr>
       [42] = Inr (plan, h') \<and>
     generateBlockPlan_heap
       \<lparr>arg_participantNumber = 123456, arg_blockIndex = 0, arg_blockOrder = 1,
        arg_condition = Combined, arg_practiceTrials = Some 3, arg_measuredTrials = Some 10\<rparr>
       h' = Inr (plan, h'') \<and>
     take 1 h' = [42]"
proof -
  let ?args = "\<lparr>arg_participantNumber = 123456, arg_blockIndex = 0, arg_blockOrder = 1,
        arg_condition = Combined, arg_practiceTrials = Some 3, arg_measuredTrials = Some 10\<rparr>"
  obtain plan where "generateBlockPlan ?args = Inr plan"
    using generateBlockPlan_succeeds [of ?args] by auto
  then have "returned (generateBlockPlan_heap ?args [42]) = Inr plan"
    by (simp only: returned_generateBlockPlan_heap)
  then obtain h' where first: "generateBlockPlan_heap ?args [42] = Inr (plan, h')"
    by (auto simp: returned_eq_Inr)
  note T = generateBlockPlan_deterministic [of ?args ?args "[42]" h', OF refl refl refl refl refl refl]
  from T [THEN conjunct1] first have "returned (generateBlockPlan_heap ?args h') = Inr plan"
    by (simp add: returned_def)
  then obtain h'' where second: "generateBlockPlan_heap ?args h' = Inr (plan, h'')"
    by (auto simp: returned_eq_Inr)
  from T [THEN conjunct2, rule_format, OF first] have frame: "take 1 h' = [42]" by simp
  show ?thesis by (intro exI [of _ plan] exI [of _ h'] exI [of _ h''] conjI first second frame)
qed

section \<open>All blocks of a participant\<close>

lemma nth_enumerate_0: "i < length xs \<Longrightarrow> enumerate 0 xs ! i = (i, xs ! i)"
  by (simp add: nth_enumerate_eq)

lemma allBlocksArgs_of:
  "practiceTrialsOf (allBlocksArgs n i c) = 3"
  "measuredTrialsOf (allBlocksArgs n i c) = 10"
  "arg_participantNumber (allBlocksArgs n i c) = n"
  "arg_blockIndex (allBlocksArgs n i c) = int i"
  "arg_blockOrder (allBlocksArgs n i c) = int i + 1"
  "arg_condition (allBlocksArgs n i c) = c"
  by (simp_all add: allBlocksArgs_def practiceTrialsOf_def measuredTrialsOf_def
        DEFAULT_PRACTICE_TRIALS_def DEFAULT_MEASURED_TRIALS_def)

text \<open>
  C10: for every participant number \<open>n\<close> (an integer that is not negative),
  \<open>generateAllBlocks n\<close> returns exactly 3 plans, and the plan at position \<open>i\<close>
  (counted from 0) is the one \<open>generateBlockPlan\<close> returns for \<open>blockIndex = i\<close>,
  \<open>blockOrder = i + 1\<close>, the condition at position \<open>i\<close> of \<open>getLatinSquareOrder n\<close>,
  \<open>practiceTrials = 3\<close> and \<open>measuredTrials = 10\<close>; it carries this index, order and
  condition, and has 3 practice and 10 measured trials, 13 in all.
\<close>

theorem generateAllBlocks_three_blocks:
  assumes "0 \<le> n"
  shows "\<exists>order plans.
           getLatinSquareOrder n = Some order \<and> length order = 3 \<and>
           generateAllBlocks n = Inr plans \<and> length plans = 3 \<and>
           (\<forall>i<3.
              generateBlockPlan
                \<lparr>arg_participantNumber = n, arg_blockIndex = int i, arg_blockOrder = int i + 1,
                 arg_condition = order ! i,
                 arg_practiceTrials = Some 3, arg_measuredTrials = Some 10\<rparr>
                = Inr (plans ! i) \<and>
              plan_blockIndex (plans ! i) = int i \<and>
              plan_blockOrder (plans ! i) = int i + 1 \<and>
              plan_condition (plans ! i) = order ! i \<and>
              plan_practiceTrials (plans ! i) = 3 \<and>
              plan_measuredTrials (plans ! i) = 10 \<and>
              length (plan_trials (plans ! i)) = 13)"
proof -
  let ?order = "LATIN_SQUARE_3 ! nat (n mod 3)"
  let ?f = "\<lambda>(index, condition). generateBlockPlan (allBlocksArgs n index condition)"
  have o: "getLatinSquareOrder n = Some ?order" by (rule getLatinSquareOrder_nonneg [OF assms])
  have lo: "length ?order = 3"
    using mod_3_cases [of n] by (auto simp: LATIN_SQUARE_3_def)
  have "\<exists>plans. traverse ?f (enumerate 0 ?order) = Inr plans"
  proof (rule traverse_succeeds)
    fix x assume "x \<in> set (enumerate 0 ?order)"
    obtain i c where x: "x = (i, c)" by (cases x)
    have "\<exists>plan. generateBlockPlan (allBlocksArgs n i c) = Inr plan"
      by (rule generateBlockPlan_succeeds) (simp_all add: allBlocksArgs_of assms)
    then show "\<exists>y. ?f x = Inr y" by (simp add: x)
  qed
  then obtain plans where tr: "traverse ?f (enumerate 0 ?order) = Inr plans" by blast
  then have g: "generateAllBlocks n = Inr plans"
    by (simp add: generateAllBlocks_def o defined_def)
  note nth = traverse_nth [OF tr]
  from nth(1) lo have lp: "length plans = 3" by simp
  have each: "\<forall>i<3.
              generateBlockPlan
                \<lparr>arg_participantNumber = n, arg_blockIndex = int i, arg_blockOrder = int i + 1,
                 arg_condition = ?order ! i,
                 arg_practiceTrials = Some 3, arg_measuredTrials = Some 10\<rparr>
                = Inr (plans ! i) \<and>
              plan_blockIndex (plans ! i) = int i \<and>
              plan_blockOrder (plans ! i) = int i + 1 \<and>
              plan_condition (plans ! i) = ?order ! i \<and>
              plan_practiceTrials (plans ! i) = 3 \<and>
              plan_measuredTrials (plans ! i) = 10 \<and>
              length (plan_trials (plans ! i)) = 13"
  proof (intro allI impI)
    fix i :: nat assume i: "i < 3"
    let ?args = "allBlocksArgs n i (?order ! i)"
    from i lo have "i < length (enumerate 0 ?order)" by simp
    from nth(2) [OF this] i lo
    have p: "generateBlockPlan ?args = Inr (plans ! i)" by (simp add: nth_enumerate_0)
    have pm: "0 \<le> practiceTrialsOf ?args" "0 \<le> measuredTrialsOf ?args"
      by (simp_all add: allBlocksArgs_of)
    note c = generateBlockPlan_counts [OF p pm]
    from p have f: "plan_blockIndex (plans ! i) = arg_blockIndex ?args"
      "plan_blockOrder (plans ! i) = arg_blockOrder ?args"
      "plan_condition (plans ! i) = arg_condition ?args"
      by (auto elim: generateBlockPlan_Inr)
    have e: "?args = \<lparr>arg_participantNumber = n, arg_blockIndex = int i, arg_blockOrder = int i + 1,
                 arg_condition = ?order ! i,
                 arg_practiceTrials = Some 3, arg_measuredTrials = Some 10\<rparr>"
      by (simp add: allBlocksArgs_def DEFAULT_PRACTICE_TRIALS_def DEFAULT_MEASURED_TRIALS_def)
    show "generateBlockPlan
                \<lparr>arg_participantNumber = n, arg_blockIndex = int i, arg_blockOrder = int i + 1,
                 arg_condition = ?order ! i,
                 arg_practiceTrials = Some 3, arg_measuredTrials = Some 10\<rparr>
                = Inr (plans ! i) \<and>
              plan_blockIndex (plans ! i) = int i \<and>
              plan_blockOrder (plans ! i) = int i + 1 \<and>
              plan_condition (plans ! i) = ?order ! i \<and>
              plan_practiceTrials (plans ! i) = 3 \<and>
              plan_measuredTrials (plans ! i) = 10 \<and>
              length (plan_trials (plans ! i)) = 13"
      using p c f unfolding e [symmetric] by (simp add: allBlocksArgs_of)
  qed
  show ?thesis by (intro exI [of _ ?order] exI [of _ plans] conjI o lo g lp each)
qed

theorem generateAllBlocks_three_blocks_witness:
  "\<exists>plans. getLatinSquareOrder 100001 = Some [Combined, Color, Shape] \<and>
           generateAllBlocks 100001 = Inr plans \<and> length plans = 3 \<and>
           plan_blockIndex (plans ! 1) = 1 \<and>
           plan_blockOrder (plans ! 1) = 2 \<and>
           plan_condition (plans ! 1) = Color \<and>
           plan_practiceTrials (plans ! 1) = 3 \<and>
           plan_measuredTrials (plans ! 1) = 10 \<and>
           length (plan_trials (plans ! 1)) = 13"
proof -
  have "(0::int) \<le> 100001" by simp
  from generateAllBlocks_three_blocks [OF this] obtain order plans where
    o: "getLatinSquareOrder 100001 = Some order" and
    g: "generateAllBlocks 100001 = Inr plans" "length plans = 3" and
    a: "\<forall>i<3. generateBlockPlan
                \<lparr>arg_participantNumber = 100001, arg_blockIndex = int i,
                 arg_blockOrder = int i + 1, arg_condition = order ! i,
                 arg_practiceTrials = Some 3, arg_measuredTrials = Some 10\<rparr>
                = Inr (plans ! i) \<and>
              plan_blockIndex (plans ! i) = int i \<and>
              plan_blockOrder (plans ! i) = int i + 1 \<and>
              plan_condition (plans ! i) = order ! i \<and>
              plan_practiceTrials (plans ! i) = 3 \<and>
              plan_measuredTrials (plans ! i) = 10 \<and>
              length (plan_trials (plans ! i)) = 13"
    by (elim exE conjE)
  have e: "getLatinSquareOrder 100001 = Some [Combined, Color, Shape]"
    by (simp add: getLatinSquareOrder_def js_rem_def js_index_def LATIN_SQUARE_3_def)
  with o have order: "order = [Combined, Color, Shape]" by simp
  from a have "plan_blockIndex (plans ! 1) = int 1 \<and>
              plan_blockOrder (plans ! 1) = int 1 + 1 \<and>
              plan_condition (plans ! 1) = order ! 1 \<and>
              plan_practiceTrials (plans ! 1) = 3 \<and>
              plan_measuredTrials (plans ! 1) = 10 \<and>
              length (plan_trials (plans ! 1)) = 13" by simp
  then have "plan_blockIndex (plans ! 1) = 1 \<and>
              plan_blockOrder (plans ! 1) = 2 \<and>
              plan_condition (plans ! 1) = Color \<and>
              plan_practiceTrials (plans ! 1) = 3 \<and>
              plan_measuredTrials (plans ! 1) = 10 \<and>
              length (plan_trials (plans ! 1)) = 13" by (simp add: order)
  with e g show ?thesis by (intro exI [of _ plans]) simp
qed

text \<open>
  For a negative participant number whose remainder is not 0 the order is
  \<open>undefined\<close>, and calling \<open>map\<close> on it raises a \<open>TypeError\<close>.
\<close>

lemma generateAllBlocks_negative: "generateAllBlocks (- 1) = Inl TypeError"
  by (simp add: generateAllBlocks_def getLatinSquareOrder_def js_rem_def defined_def)

section \<open>Properties of the balance of the targets\<close>

text \<open>
  The map that \<open>assertBalancedTargets\<close> builds holds each target that occurs once, with
  the number of its occurrences.
\<close>

lemma countTargets_fold:
  assumes "distinct (map fst acc)"
  shows "distinct (map fst (fold (\<lambda>target counts.
            AList.update target ((case map_of counts target of None \<Rightarrow> 0 | Some c \<Rightarrow> c) + 1) counts)
            ts acc)) \<and>
         map_of (fold (\<lambda>target counts.
            AList.update target ((case map_of counts target of None \<Rightarrow> 0 | Some c \<Rightarrow> c) + 1) counts)
            ts acc) k
           = (if k \<in> set ts
              then Some (count_list ts k + (case map_of acc k of None \<Rightarrow> 0 | Some c \<Rightarrow> c))
              else map_of acc k)"
  using assms
proof (induction ts arbitrary: acc)
  case Nil
  then show ?case by simp
next
  case (Cons t ts)
  let ?acc = "AList.update t ((case map_of acc t of None \<Rightarrow> 0 | Some c \<Rightarrow> c) + 1) acc"
  have d: "distinct (map fst ?acc)" using Cons.prems by (rule distinct_update)
  from Cons.IH [OF d] show ?case by (auto simp: update_conv')
qed

lemma countTargets_map_of:
  "distinct (map fst (countTargets ts))"
  "map_of (countTargets ts) k = (if k \<in> set ts then Some (count_list ts k) else None)"
  using countTargets_fold [of "[]" ts k] by (simp_all add: countTargets_def)

lemma countTargets_values:
  "set (map snd (countTargets ts)) = count_list ts ` set ts"
proof -
  have "set (map snd (countTargets ts)) = ran (map_of (countTargets ts))"
    using ran_distinct [OF countTargets_map_of(1), of ts] by simp
  also have "\<dots> = count_list ts ` set ts"
    by (auto simp: ran_def countTargets_map_of(2) split: if_splits)
  finally show ?thesis .
qed

lemma spread_bounds:
  assumes "vals \<noteq> []" "\<forall>v\<in>set vals. b \<le> v \<and> v \<le> b + 1"
  shows "\<exists>d. spread vals = Finite d \<and> 0 \<le> d \<and> d \<le> 1"
proof -
  have ne: "set vals \<noteq> {}" "finite (set vals)" using assms(1) by simp_all
  have "Max (set vals) \<in> set vals" "Min (set vals) \<in> set vals"
    using ne by (simp_all add: Max_in Min_in)
  with assms(2) have "Max (set vals) \<le> b + 1" "b \<le> Min (set vals)" by blast+
  moreover have "Min (set vals) \<le> Max (set vals)" using ne by (simp add: Min_le_iff)
  ultimately have "0 \<le> int (Max (set vals)) - int (Min (set vals))"
    "int (Max (set vals)) - int (Min (set vals)) \<le> 1" by linarith+
  with assms(1) show ?thesis by (simp add: spread_def)
qed

lemma spread_targets:
  assumes "\<forall>k\<in>set ts. b \<le> count_list ts k \<and> count_list ts k \<le> b + 1"
  shows "if ts = [] then spread (map snd (countTargets ts)) = NegInfinity
         else \<exists>d. spread (map snd (countTargets ts)) = Finite d \<and> 0 \<le> d \<and> d \<le> 1"
proof (cases "ts = []")
  case True
  then show ?thesis by (simp add: countTargets_def spread_def)
next
  case False
  then have "set (map snd (countTargets ts)) \<noteq> {}" by (simp only: countTargets_values) simp
  then have ne: "map snd (countTargets ts) \<noteq> []" by auto
  have "\<forall>v\<in>set (map snd (countTargets ts)). b \<le> v \<and> v \<le> b + 1"
    using assms by (simp only: countTargets_values) blast
  from spread_bounds [OF ne this] False show ?thesis by simp
qed

lemma filter_not_practice:
  "(\<And>t. t < length xs \<Longrightarrow> P (xs ! t) = (t < k)) \<Longrightarrow> filter (\<lambda>x. \<not> P x) xs = drop k xs"
proof (induction xs arbitrary: k)
  case Nil
  then show ?case by simp
next
  case (Cons x xs)
  show ?case
  proof (cases k)
    case 0
    then have "\<forall>y\<in>set (x # xs). \<not> P y" using Cons.prems by (metis in_set_conv_nth less_nat_zero_code)
    then have "filter (\<lambda>x. \<not> P x) (x # xs) = x # xs" by (simp add: filter_id_conv)
    with 0 show ?thesis by simp
  next
    case (Suc k')
    have "P x" using Cons.prems [of 0] Suc by simp
    moreover have "\<And>t. t < length xs \<Longrightarrow> P (xs ! t) = (t < k')"
      using Cons.prems [of "Suc _"] Suc by simp
    ultimately show ?thesis using Cons.IH [of k'] Suc by simp
  qed
qed

lemma count_list_inj:
  "inj_on f (insert i (set xs)) \<Longrightarrow> count_list (map f xs) (f i) = count_list xs i"
proof (induction xs)
  case Nil
  then show ?case by simp
next
  case (Cons x xs)
  then have "inj_on f (insert i (set xs))" by (auto simp: inj_on_def)
  moreover have "f x = f i \<longleftrightarrow> x = i" using Cons.prems by (auto simp: inj_on_def)
  ultimately show ?case using Cons.IH by simp
qed

lemma inj_on_names:
  assumes "distinct (map fst table)"
  shows "inj_on (\<lambda>i. fst (table ! i)) {0..<length table}"
proof -
  have "inj_on (nth (map fst table)) {0..<length table}"
    using assms by (intro inj_on_nth) simp_all
  then show ?thesis by (auto simp: inj_on_def)
qed

lemma length_filter_members:
  assumes "distinct extra" "set extra \<subseteq> {0..<n}"
  shows "length (filter (\<lambda>i. i \<in> set extra) [0..<n]) = length extra"
    and "length (filter (\<lambda>i. i \<notin> set extra) [0..<n]) = n - length extra"
proof -
  have "length (filter (\<lambda>i. i \<in> set extra) [0..<n]) = card ({i. i \<in> set extra} \<inter> set [0..<n])"
    by (rule distinct_length_filter) simp
  also have "{i. i \<in> set extra} \<inter> set [0..<n] = set extra" using assms(2) by auto
  also have "card (set extra) = length extra" using assms(1) by (rule distinct_card)
  finally show a: "length (filter (\<lambda>i. i \<in> set extra) [0..<n]) = length extra" .
  from sum_length_filter_compl [of "\<lambda>i. i \<in> set extra" "[0..<n]"] a
  show "length (filter (\<lambda>i. i \<notin> set extra) [0..<n]) = n - length extra" by simp
qed

text \<open>
  The measured trials of a plan are the trials after the first \<open>practiceTrials\<close>, and
  their targets are the names at the measured balanced indices, in this order (or
  the fixed \<open>black\<close>, \<open>circle\<close> of the condition).
\<close>

lemma measured_targets:
  assumes g: "generateBlockPlan args = Inr plan" and p: "0 \<le> practiceTrialsOf args"
  obtains mci msi rand2 rand3 rand4 where
    "buildBalancedIndices 8 (measuredTrialsOf args) rand2 = Inr (mci, rand3)"
    "buildBalancedIndices 8 (measuredTrialsOf args) rand3 = Inr (msi, rand4)"
    "map trial_targetColor (filter (\<lambda>trial. \<not> isPractice trial) (plan_trials plan))
       = (if arg_condition args = Shape then replicate (length mci) ''black''
          else map (\<lambda>i. fst (COLORS ! i)) mci)"
    "map trial_targetShape (filter (\<lambda>trial. \<not> isPractice trial) (plan_trials plan))
       = (if arg_condition args = Color then replicate (length msi) ''circle''
          else map (\<lambda>i. fst (SHAPES ! i)) msi)"
proof -
  let ?p = "practiceTrialsOf args" and ?m = "measuredTrialsOf args"
  let ?n = "nat (?p + ?m)"
  let ?trials = "plan_trials plan"
  from g obtain pci rand1 psi rand2 mci rand3 msi rand4 where
    pci: "buildBalancedIndices 8 ?p
       (seededRandom (arg_participantNumber args * 1000 + arg_blockIndex args * 77
                      + arg_blockOrder args * 19)) = Inr (pci, rand1)" and
    psi: "buildBalancedIndices 8 ?p rand1 = Inr (psi, rand2)" and
    mci: "buildBalancedIndices 8 ?m rand2 = Inr (mci, rand3)" and
    msi: "buildBalancedIndices 8 ?m rand3 = Inr (msi, rand4)" and
    tr: "traverse (buildTrial args ?p (pci @ mci) (psi @ msi)) [0..<?n] = Inr ?trials"
    by (rule generateBlockPlan_Inr)
  note nth = traverse_nth [OF tr]
  have len: "length ?trials = ?n" using nth(1) by simp
  have bt: "\<And>t. t < ?n \<Longrightarrow> buildTrial args ?p (pci @ mci) (psi @ msi) t = Inr (?trials ! t)"
    using nth(2) by simp
  have lpci: "length pci = nat ?p" and lpsi: "length psi = nat ?p"
    and lmci: "length mci = nat ?m" and lmsi: "length msi = nat ?m"
    using buildBalancedIndices_shape(1) [OF _ pci] buildBalancedIndices_shape(1) [OF _ psi]
      buildBalancedIndices_shape(1) [OF _ mci] buildBalancedIndices_shape(1) [OF _ msi]
    by simp_all
  have nm: "?n - nat ?p = nat ?m" using p by linarith
  have "\<And>t. t < length ?trials \<Longrightarrow> isPractice (?trials ! t) = (t < nat ?p)"
  proof -
    fix t assume "t < length ?trials"
    then have "isPractice (?trials ! t) = (int t < ?p)"
      using buildTrial_result(1) [OF bt [of t]] len by simp
    then show "isPractice (?trials ! t) = (t < nat ?p)" using p by linarith
  qed
  then have meas: "filter (\<lambda>trial. \<not> isPractice trial) ?trials = drop (nat ?p) ?trials"
    by (rule filter_not_practice)
  have at: "\<And>i. i < nat ?m \<Longrightarrow> nat ?p + i < ?n" using nm by linarith
  have c: "map trial_targetColor (drop (nat ?p) ?trials)
       = (if arg_condition args = Shape then replicate (length mci) ''black''
          else map (\<lambda>i. fst (COLORS ! i)) mci)"
  proof (rule nth_equalityI)
    show "length (map trial_targetColor (drop (nat ?p) ?trials))
            = length (if arg_condition args = Shape then replicate (length mci) ''black''
                      else map (\<lambda>i. fst (COLORS ! i)) mci)"
      using len nm lmci by simp
  next
    fix i assume "i < length (map trial_targetColor (drop (nat ?p) ?trials))"
    then have i: "i < nat ?m" using len nm by simp
    note r = buildTrial_result [OF bt [OF at [OF i]]]
    have e: "drop (nat ?p) ?trials ! i = ?trials ! (nat ?p + i)"
      using at [OF i] len by simp
    show "map trial_targetColor (drop (nat ?p) ?trials) ! i
            = (if arg_condition args = Shape then replicate (length mci) ''black''
               else map (\<lambda>i. fst (COLORS ! i)) mci) ! i"
    proof (cases "arg_condition args = Shape")
      case True
      with r(4) e i lmci len nm show ?thesis by simp
    next
      case False
      from r(3) [OF False] have "trial_targetColor (?trials ! (nat ?p + i))
          = fst (COLORS ! ((pci @ mci) ! (nat ?p + i)))" by simp
      also have "(pci @ mci) ! (nat ?p + i) = mci ! i"
        using lpci by (metis nth_append_length_plus)
      finally show ?thesis using False e i lmci len nm by simp
    qed
  qed
  have s: "map trial_targetShape (drop (nat ?p) ?trials)
       = (if arg_condition args = Color then replicate (length msi) ''circle''
          else map (\<lambda>i. fst (SHAPES ! i)) msi)"
  proof (rule nth_equalityI)
    show "length (map trial_targetShape (drop (nat ?p) ?trials))
            = length (if arg_condition args = Color then replicate (length msi) ''circle''
                      else map (\<lambda>i. fst (SHAPES ! i)) msi)"
      using len nm lmsi by simp
  next
    fix i assume "i < length (map trial_targetShape (drop (nat ?p) ?trials))"
    then have i: "i < nat ?m" using len nm by simp
    note r = buildTrial_result [OF bt [OF at [OF i]]]
    have e: "drop (nat ?p) ?trials ! i = ?trials ! (nat ?p + i)"
      using at [OF i] len by simp
    show "map trial_targetShape (drop (nat ?p) ?trials) ! i
            = (if arg_condition args = Color then replicate (length msi) ''circle''
               else map (\<lambda>i. fst (SHAPES ! i)) msi) ! i"
    proof (cases "arg_condition args = Color")
      case True
      with r(6) e i lmsi len nm show ?thesis by simp
    next
      case False
      from r(5) [OF False] have "trial_targetShape (?trials ! (nat ?p + i))
          = fst (SHAPES ! ((psi @ msi) ! (nat ?p + i)))" by simp
      also have "(psi @ msi) ! (nat ?p + i) = msi ! i"
        using lpsi by (metis nth_append_length_plus)
      finally show ?thesis using False e i lmsi len nm by simp
    qed
  qed
  from that [OF mci msi] c s meas show thesis by simp
qed

lemma count_list_names:
  assumes "distinct (map fst table)" "i < length table" "\<forall>x\<in>set xs. x < length table"
  shows "count_list (map (\<lambda>i. fst (table ! i)) xs) (fst (table ! i)) = count_list xs i"
proof (rule count_list_inj)
  have "insert i (set xs) \<subseteq> {0..<length table}" using assms(2,3) by auto
  then show "inj_on (\<lambda>i. fst (table ! i)) (insert i (set xs))"
    using inj_on_names [OF assms(1)] by (rule inj_on_subset [rotated])
qed

lemma balanced_names:
  assumes d: "distinct (map fst table)" and l: "length table = 8"
    and b: "buildBalancedIndices 8 m rand = Inr (xs, rand')"
  shows "\<exists>b. \<forall>k\<in>set (map (\<lambda>i. fst (table ! i)) xs).
           b \<le> count_list (map (\<lambda>i. fst (table ! i)) xs) k \<and>
           count_list (map (\<lambda>i. fst (table ! i)) xs) k \<le> b + 1"
    and "m = 10 \<Longrightarrow>
           length (filter (\<lambda>e. count_list (map (\<lambda>i. fst (table ! i)) xs) (fst e) = 2) table) = 2 \<and>
           length (filter (\<lambda>e. count_list (map (\<lambda>i. fst (table ! i)) xs) (fst e) = 1) table) = 6"
proof -
  let ?ts = "map (\<lambda>i. fst (table ! i)) xs"
  have rng: "\<forall>x\<in>set xs. x < length table"
    using buildBalancedIndices_shape(2) [OF _ b] l by simp
  have cn: "\<And>i. i < 8 \<Longrightarrow> count_list ?ts (fst (table ! i)) = count_list xs i"
    using count_list_names [OF d _ rng] l by simp
  show "\<exists>b. \<forall>k\<in>set ?ts. b \<le> count_list ?ts k \<and> count_list ?ts k \<le> b + 1"
  proof (cases "0 < m")
    case False
    with b have "xs = []" by (simp add: buildBalancedIndices_def)
    then show ?thesis by simp
  next
    case True
    from buildBalancedIndices_result [OF _ True b] obtain extra where
      m: "mset xs = mset (baseIndices (nat 8) (nat (m div 8))) + mset extra" and
      dx: "distinct extra" and s: "set extra \<subseteq> {0..<nat 8}" by auto
    note bc = balanced_counts(1) [OF m dx s]
    have "\<forall>k\<in>set ?ts. nat (m div 8) \<le> count_list ?ts k \<and> count_list ?ts k \<le> nat (m div 8) + 1"
    proof
      fix k assume "k \<in> set ?ts"
      then obtain i where i: "i \<in> set xs" "k = fst (table ! i)" by auto
      then have i8: "i < 8" using rng l by simp
      from cn [OF i8] i(2) bc [of i] i8
      show "nat (m div 8) \<le> count_list ?ts k \<and> count_list ?ts k \<le> nat (m div 8) + 1"
        by simp
    qed
    then show ?thesis by blast
  qed
  show "m = 10 \<Longrightarrow>
           length (filter (\<lambda>e. count_list ?ts (fst e) = 2) table) = 2 \<and>
           length (filter (\<lambda>e. count_list ?ts (fst e) = 1) table) = 6"
  proof -
    assume m10: "m = 10"
    from buildBalancedIndices_result [OF _ _ b] m10 obtain extra where
      m: "mset xs = mset (baseIndices (nat 8) (nat (m div 8))) + mset extra" and
      dx: "distinct extra" and s: "set extra \<subseteq> {0..<nat 8}" and
      le: "length extra = nat (m mod 8)" by auto
    note bc = balanced_counts(1) [OF m dx s]
    have le2: "length extra = 2" using le m10 by simp
    have cnt: "\<And>i. i < 8 \<Longrightarrow>
        count_list ?ts (fst (table ! i)) = 1 + (if i \<in> set extra then 1 else 0)"
      using cn bc m10 by simp
    have tab: "table = map (\<lambda>i. table ! i) [0..<8]"
      using map_nth [of table] l by simp
    have f: "\<And>v. length (filter (\<lambda>e. count_list ?ts (fst e) = v) table)
        = length (filter (\<lambda>i. 1 + (if i \<in> set extra then 1 else 0) = v) [0..<8])"
    proof -
      fix v :: nat
      have "length (filter (\<lambda>e. count_list ?ts (fst e) = v) table)
          = length (filter (\<lambda>e. count_list ?ts (fst e) = v) (map (\<lambda>i. table ! i) [0..<8]))"
        using tab by simp
      also have "\<dots> = length (filter (\<lambda>i. count_list ?ts (fst (table ! i)) = v) [0..<8])"
        by (simp add: filter_map comp_def)
      also have "filter (\<lambda>i. count_list ?ts (fst (table ! i)) = v) [0..<8]
          = filter (\<lambda>i. 1 + (if i \<in> set extra then 1 else 0) = v) [0..<8]"
        by (rule filter_cong) (simp_all add: cnt)
      finally show "length (filter (\<lambda>e. count_list ?ts (fst e) = v) table)
        = length (filter (\<lambda>i. 1 + (if i \<in> set extra then 1 else 0) = v) [0..<8])" .
    qed
    have s8: "set extra \<subseteq> {0..<8}" using s by simp
    note mem = length_filter_members [OF dx s8]
    have "filter (\<lambda>i. 1 + (if i \<in> set extra then 1 else 0) = (2::nat)) [0..<8]
            = filter (\<lambda>i. i \<in> set extra) [0..<8]"
      by (rule filter_cong) simp_all
    moreover have "filter (\<lambda>i. 1 + (if i \<in> set extra then 1 else 0) = (1::nat)) [0..<8]
            = filter (\<lambda>i. i \<notin> set extra) [0..<8]"
      by (rule filter_cong) simp_all
    ultimately show ?thesis using f [of 2] f [of 1] mem le2 by simp
  qed
qed

lemma spread_replicate:
  "spread (map snd (countTargets (replicate n x))) \<in> {NegInfinity, Finite 0, Finite 1}"
proof -
  have "\<forall>k\<in>set (replicate n x). n \<le> count_list (replicate n x) k \<and>
          count_list (replicate n x) k \<le> n + 1"
    by (auto simp: count_list_replicate)
  from spread_targets [OF this] show ?thesis by (auto split: if_splits)
qed

lemma spread_names:
  assumes "distinct (map fst table)" "length table = 8"
    and "buildBalancedIndices 8 m rand = Inr (xs, rand')"
  shows "spread (map snd (countTargets (map (\<lambda>i. fst (table ! i)) xs)))
           \<in> {NegInfinity, Finite 0, Finite 1}"
proof -
  from balanced_names(1) [OF assms] obtain b where
    "\<forall>k\<in>set (map (\<lambda>i. fst (table ! i)) xs).
           b \<le> count_list (map (\<lambda>i. fst (table ! i)) xs) k \<and>
           count_list (map (\<lambda>i. fst (table ! i)) xs) k \<le> b + 1" by blast
  from spread_targets [OF this] show ?thesis by (auto split: if_splits)
qed

text \<open>
  C2: for a plan that \<open>generateBlockPlan\<close> returns (with \<open>practiceTrials\<close> a count, hence
  not negative), the spread of the target counts of the measured trials, as
  \<open>assertBalancedTargets\<close> computes it (largest minus smallest count over the
  categories that occur), is 0 or 1 for the colours and 0 or 1 for the shapes, in each
  of the three conditions; it is \<open>-Infinity\<close> only with no measured trial at all. With
  \<open>measuredTrials = 10\<close>, in the conditions \<open>color\<close> and \<open>combined\<close> exactly 2 of the 8
  colours are the target of 2 measured trials and 6 are the target of 1, and in the
  conditions \<open>shape\<close> and \<open>combined\<close> the same holds for the 8 shapes.
\<close>

theorem measured_targets_balanced:
  assumes "0 \<le> practiceTrialsOf args" "generateBlockPlan args = Inr plan"
  shows "maxColorDiff (assertBalancedTargets (plan_trials plan))
           \<in> {NegInfinity, Finite 0, Finite 1} \<and>
         maxShapeDiff (assertBalancedTargets (plan_trials plan))
           \<in> {NegInfinity, Finite 0, Finite 1} \<and>
         (0 < measuredTrialsOf args \<longrightarrow>
            maxColorDiff (assertBalancedTargets (plan_trials plan)) \<noteq> NegInfinity \<and>
            maxShapeDiff (assertBalancedTargets (plan_trials plan)) \<noteq> NegInfinity) \<and>
         (measuredTrialsOf args = 10 \<and> arg_condition args \<noteq> Shape \<longrightarrow>
            length (filter (\<lambda>color.
               count_list (map trial_targetColor
                  (filter (\<lambda>trial. \<not> isPractice trial) (plan_trials plan))) (fst color) = 2)
               COLORS) = 2 \<and>
            length (filter (\<lambda>color.
               count_list (map trial_targetColor
                  (filter (\<lambda>trial. \<not> isPractice trial) (plan_trials plan))) (fst color) = 1)
               COLORS) = 6) \<and>
         (measuredTrialsOf args = 10 \<and> arg_condition args \<noteq> Color \<longrightarrow>
            length (filter (\<lambda>shape.
               count_list (map trial_targetShape
                  (filter (\<lambda>trial. \<not> isPractice trial) (plan_trials plan))) (fst shape) = 2)
               SHAPES) = 2 \<and>
            length (filter (\<lambda>shape.
               count_list (map trial_targetShape
                  (filter (\<lambda>trial. \<not> isPractice trial) (plan_trials plan))) (fst shape) = 1)
               SHAPES) = 6)"
proof -
  let ?measured = "filter (\<lambda>trial. \<not> isPractice trial) (plan_trials plan)"
  let ?m = "measuredTrialsOf args"
  from assms(2,1) obtain mci msi rand2 rand3 rand4 where
    mci: "buildBalancedIndices 8 ?m rand2 = Inr (mci, rand3)" and
    msi: "buildBalancedIndices 8 ?m rand3 = Inr (msi, rand4)" and
    tc: "map trial_targetColor ?measured
       = (if arg_condition args = Shape then replicate (length mci) ''black''
          else map (\<lambda>i. fst (COLORS ! i)) mci)" and
    ts: "map trial_targetShape ?measured
       = (if arg_condition args = Color then replicate (length msi) ''circle''
          else map (\<lambda>i. fst (SHAPES ! i)) msi)"
    by (rule measured_targets)
  have mc: "maxColorDiff (assertBalancedTargets (plan_trials plan))
              = spread (map snd (countTargets (map trial_targetColor ?measured)))"
    and ms: "maxShapeDiff (assertBalancedTargets (plan_trials plan))
              = spread (map snd (countTargets (map trial_targetShape ?measured)))"
    by (simp_all add: assertBalancedTargets_def Let_def)
  have a: "maxColorDiff (assertBalancedTargets (plan_trials plan))
             \<in> {NegInfinity, Finite 0, Finite 1}"
    unfolding mc tc
    using spread_replicate [of "length mci" "''black''"]
      spread_names [OF distinct_COLORS length_COLORS mci]
    by (cases "arg_condition args = Shape") simp_all
  have b: "maxShapeDiff (assertBalancedTargets (plan_trials plan))
             \<in> {NegInfinity, Finite 0, Finite 1}"
    unfolding ms ts
    using spread_replicate [of "length msi" "''circle''"]
      spread_names [OF distinct_SHAPES length_SHAPES msi]
    by (cases "arg_condition args = Color") simp_all
  have c: "0 < ?m \<longrightarrow>
            maxColorDiff (assertBalancedTargets (plan_trials plan)) \<noteq> NegInfinity \<and>
            maxShapeDiff (assertBalancedTargets (plan_trials plan)) \<noteq> NegInfinity"
  proof
    assume pos: "0 < ?m"
    have "length mci = nat ?m" "length msi = nat ?m"
      using buildBalancedIndices_shape(1) [OF _ mci] buildBalancedIndices_shape(1) [OF _ msi]
      by simp_all
    with pos have "map trial_targetColor ?measured \<noteq> []" "map trial_targetShape ?measured \<noteq> []"
      unfolding tc ts by auto
    then have "countTargets (map trial_targetColor ?measured) \<noteq> []"
      "countTargets (map trial_targetShape ?measured) \<noteq> []"
      using countTargets_values [of "map trial_targetColor ?measured"]
        countTargets_values [of "map trial_targetShape ?measured"]
      by (metis image_is_empty list.map_disc_iff set_empty)+
    then show "maxColorDiff (assertBalancedTargets (plan_trials plan)) \<noteq> NegInfinity \<and>
            maxShapeDiff (assertBalancedTargets (plan_trials plan)) \<noteq> NegInfinity"
      unfolding mc ms by (simp add: spread_def)
  qed
  have d: "?m = 10 \<and> arg_condition args \<noteq> Shape \<longrightarrow>
            length (filter (\<lambda>color.
               count_list (map trial_targetColor ?measured) (fst color) = 2) COLORS) = 2 \<and>
            length (filter (\<lambda>color.
               count_list (map trial_targetColor ?measured) (fst color) = 1) COLORS) = 6"
    using balanced_names(2) [OF distinct_COLORS length_COLORS mci] tc by simp
  have e: "?m = 10 \<and> arg_condition args \<noteq> Color \<longrightarrow>
            length (filter (\<lambda>shape.
               count_list (map trial_targetShape ?measured) (fst shape) = 2) SHAPES) = 2 \<and>
            length (filter (\<lambda>shape.
               count_list (map trial_targetShape ?measured) (fst shape) = 1) SHAPES) = 6"
    using balanced_names(2) [OF distinct_SHAPES length_SHAPES msi] ts by simp
  show ?thesis by (intro conjI a b c d e)
qed

theorem measured_targets_balanced_witness:
  "\<exists>plan. generateBlockPlan
             \<lparr>arg_participantNumber = 654321, arg_blockIndex = 1, arg_blockOrder = 2,
              arg_condition = Combined, arg_practiceTrials = Some 3,
              arg_measuredTrials = Some 10\<rparr> = Inr plan \<and>
          maxColorDiff (assertBalancedTargets (plan_trials plan)) \<in> {Finite 0, Finite 1} \<and>
          maxShapeDiff (assertBalancedTargets (plan_trials plan)) \<in> {Finite 0, Finite 1} \<and>
          length (filter (\<lambda>color.
               count_list (map trial_targetColor
                  (filter (\<lambda>trial. \<not> isPractice trial) (plan_trials plan))) (fst color) = 2)
               COLORS) = 2 \<and>
          length (filter (\<lambda>shape.
               count_list (map trial_targetShape
                  (filter (\<lambda>trial. \<not> isPractice trial) (plan_trials plan))) (fst shape) = 1)
               SHAPES) = 6"
proof -
  let ?args = "\<lparr>arg_participantNumber = 654321, arg_blockIndex = 1, arg_blockOrder = 2,
              arg_condition = Combined, arg_practiceTrials = Some 3,
              arg_measuredTrials = Some 10\<rparr>"
  have v: "practiceTrialsOf ?args = 3" "measuredTrialsOf ?args = 10" "arg_condition ?args = Combined"
    by (simp_all add: practiceTrialsOf_def measuredTrialsOf_def)
  obtain plan where p: "generateBlockPlan ?args = Inr plan"
    using generateBlockPlan_succeeds [of ?args] by auto
  have "0 \<le> practiceTrialsOf ?args" by (simp add: v)
  note T = measured_targets_balanced [OF this p]
  have t1: "maxColorDiff (assertBalancedTargets (plan_trials plan)) \<in> {Finite 0, Finite 1}"
    using T [THEN conjunct1] T [THEN conjunct2, THEN conjunct2, THEN conjunct1] v by auto
  have t2: "maxShapeDiff (assertBalancedTargets (plan_trials plan)) \<in> {Finite 0, Finite 1}"
    using T [THEN conjunct2, THEN conjunct1] T [THEN conjunct2, THEN conjunct2, THEN conjunct1] v
    by auto
  have t3: "length (filter (\<lambda>color.
               count_list (map trial_targetColor
                  (filter (\<lambda>trial. \<not> isPractice trial) (plan_trials plan))) (fst color) = 2)
               COLORS) = 2"
    using T [THEN conjunct2, THEN conjunct2, THEN conjunct2, THEN conjunct1] v by simp
  have t4: "length (filter (\<lambda>shape.
               count_list (map trial_targetShape
                  (filter (\<lambda>trial. \<not> isPractice trial) (plan_trials plan))) (fst shape) = 1)
               SHAPES) = 6"
    using T [THEN conjunct2, THEN conjunct2, THEN conjunct2, THEN conjunct2] v by simp
  show ?thesis by (intro exI [of _ plan] conjI p t1 t2 t3 t4)
qed

end
